theory Spec2Isabelle
  imports Complex_Main "HOL-Library.Monad_Syntax"
begin

section \<open>Tensors\<close>

text \<open>
  A tensor is a shape and a contiguous row-major buffer. Entries are real numbers: the
  model idealises the framework's floating-point arithmetic. An operation that raises
  in the framework (a shape mismatch, a kernel larger than its input, a failed unpacking)
  returns \<open>None\<close>.
\<close>

datatype tensor = Tensor (shape: "nat list") (data: "real list")

fun flat_index :: "nat list \<Rightarrow> nat list \<Rightarrow> nat" where
  "flat_index (d # ds) (i # js) = i * prod_list ds + flat_index ds js"
| "flat_index _ _ = 0"

fun indices :: "nat list \<Rightarrow> nat list list" where
  "indices [] = [[]]"
| "indices (d # ds) = concat (map (\<lambda>i. map ((#) i) (indices ds)) [0..<d])"

definition valid_index :: "nat list \<Rightarrow> nat list \<Rightarrow> bool" where
  "valid_index s idx = list_all2 (<) idx s"

definition numel :: "tensor \<Rightarrow> nat" where
  "numel t = prod_list (shape t)"

definition wf_tensor :: "tensor \<Rightarrow> bool" where
  "wf_tensor t = (length (data t) = prod_list (shape t))"

definition get :: "tensor \<Rightarrow> nat list \<Rightarrow> real" where
  "get t idx = data t ! flat_index (shape t) idx"

definition tabulate :: "nat list \<Rightarrow> (nat list \<Rightarrow> real) \<Rightarrow> tensor" where
  "tabulate s f = Tensor s (map f (indices s))"

definition zeros :: "nat list \<Rightarrow> tensor" where
  "zeros s = tabulate s (\<lambda>_. 0)"

definition ones :: "nat list \<Rightarrow> tensor" where
  "ones s = tabulate s (\<lambda>_. 1)"

text \<open>\<open>F.pad(x, (l, r, t, b))\<close> in its default mode \<open>'constant'\<close> with value 0: the last
  dimension grows by \<open>l\<close> on the left and \<open>r\<close> on the right, the one before it by \<open>t\<close> on
  top and \<open>b\<close> at the bottom.\<close>

definition pad :: "tensor \<Rightarrow> nat \<times> nat \<times> nat \<times> nat \<Rightarrow> tensor option" where
  "pad x p = (case p of (l, r, t, b) \<Rightarrow>
     (case shape x of
        [n, c, h, w] \<Rightarrow>
          Some (tabulate [n, c, t + h + b, l + w + r]
            (\<lambda>idx. if t \<le> idx ! 2 \<and> idx ! 2 < t + h \<and> l \<le> idx ! 3 \<and> idx ! 3 < l + w
                    then get x [idx ! 0, idx ! 1, idx ! 2 - t, idx ! 3 - l] else 0))
      | _ \<Rightarrow> None))"

section \<open>Modules\<close>

record Conv2d =
  conv_weight :: tensor
  conv_bias :: "tensor option"
  conv_stride :: nat
  conv_padding :: nat
  conv_groups :: nat

record LayerNorm2d =
  ln_weight :: tensor
  ln_bias :: tensor
  ln_eps :: real

text \<open>The attribute of the network that \<open>check_image_size\<close> reads; the modules of the
  network extend this record below.\<close>

record CascadedGaze =
  padder_size :: nat

text \<open>The remainder \<open>h % self.padder_size\<close> raises when the padder size is 0.\<close>

definition check_image_size :: "'a CascadedGaze_scheme \<Rightarrow> tensor \<Rightarrow> tensor option" where
  "check_image_size self x =
     (case shape x of
        [_, _, h, w] \<Rightarrow>
          (if padder_size self = 0 then None
           else let mod_pad_h = (padder_size self - h mod padder_size self) mod padder_size self;
                    mod_pad_w = (padder_size self - w mod padder_size self) mod padder_size self
                in pad x (0, mod_pad_w, 0, mod_pad_h))
      | _ \<Rightarrow> None)"

section \<open>Framework operations\<close>

text \<open>\<open>t.narrow(d, start, len)\<close>: the slice of \<open>len\<close> entries of dimension \<open>d\<close> that starts at
  \<open>start\<close>.\<close>

definition narrow :: "tensor \<Rightarrow> nat \<Rightarrow> nat \<Rightarrow> nat \<Rightarrow> tensor" where
  "narrow t d start len =
     tabulate ((shape t)[d := len]) (\<lambda>idx. get t (idx[d := start + idx ! d]))"

text \<open>\<open>t.chunk(chunks, d)\<close>: pieces of \<open>ceil(size / chunks)\<close> entries along dimension \<open>d\<close>, the
  last one shorter when the size is no multiple; fewer than \<open>chunks\<close> pieces when the size
  is small, and \<open>chunks\<close> empty pieces when the size is 0.\<close>

definition chunk :: "tensor \<Rightarrow> nat \<Rightarrow> nat \<Rightarrow> tensor list option" where
  "chunk t chunks d =
     (if length (shape t) \<le> d \<or> chunks = 0 then None
      else let dim_size = shape t ! d;
               split_size = (dim_size + chunks - 1) div chunks
           in if split_size = 0 then Some (replicate chunks (narrow t d 0 0))
              else let num_splits = max ((dim_size + split_size - 1) div split_size) 1
                   in Some (map (\<lambda>i. narrow t d (i * split_size)
                                       (min split_size (dim_size - i * split_size)))
                              [0..<num_splits]))"

text \<open>Broadcasting of two shapes, aligned at the last dimension: sizes must agree or one of
  them be 1.\<close>

definition broadcast_shapes :: "nat list \<Rightarrow> nat list \<Rightarrow> nat list option" where
  "broadcast_shapes s1 s2 =
     (let r = max (length s1) (length s2);
          a = replicate (r - length s1) 1 @ s1;
          b = replicate (r - length s2) 1 @ s2
      in if list_all2 (\<lambda>x y. x = y \<or> x = 1 \<or> y = 1) a b
         then Some (map2 (\<lambda>x y. if x = 1 then y else x) a b) else None)"

definition expand_index :: "nat list \<Rightarrow> nat list \<Rightarrow> nat list" where
  "expand_index s idx =
     map2 (\<lambda>d i. if d = 1 then 0 else i) s (drop (length idx - length s) idx)"

definition binop :: "(real \<Rightarrow> real \<Rightarrow> real) \<Rightarrow> tensor \<Rightarrow> tensor \<Rightarrow> tensor option" where
  "binop f a b =
     (case broadcast_shapes (shape a) (shape b) of
        None \<Rightarrow> None
      | Some s \<Rightarrow> Some (tabulate s (\<lambda>idx. f (get a (expand_index (shape a) idx))
                                           (get b (expand_index (shape b) idx)))))"

definition mul :: "tensor \<Rightarrow> tensor \<Rightarrow> tensor option" where
  "mul = binop (*)"

definition add :: "tensor \<Rightarrow> tensor \<Rightarrow> tensor option" where
  "add = binop (+)"

definition sub :: "tensor \<Rightarrow> tensor \<Rightarrow> tensor option" where
  "sub = binop (-)"

definition divide_t :: "tensor \<Rightarrow> tensor \<Rightarrow> tensor option" where
  "divide_t = binop (/)"

definition map_tensor :: "(real \<Rightarrow> real) \<Rightarrow> tensor \<Rightarrow> tensor" where
  "map_tensor f t = tabulate (shape t) (\<lambda>idx. f (get t idx))"

section \<open>SimpleGate\<close>

definition SimpleGate_forward :: "tensor \<Rightarrow> tensor option" where
  "SimpleGate_forward x =
     (case chunk x 2 1 of
        Some [x1, x2] \<Rightarrow> mul x1 x2
      | _ \<Rightarrow> None)"

section \<open>CustomPixelShuffle\<close>

text \<open>\<open>t.reshape(s)\<close> keeps the row-major sequence of entries and raises unless the new shape
  has as many entries as the old one.\<close>

definition reshape :: "tensor \<Rightarrow> nat list \<Rightarrow> tensor option" where
  "reshape t s = (if prod_list s = numel t then Some (Tensor s (data t)) else None)"

fun index_of :: "nat list \<Rightarrow> nat \<Rightarrow> nat" where
  "index_of [] k = 0"
| "index_of (p # ps) k = (if p = k then 0 else Suc (index_of ps k))"

text \<open>\<open>t.permute(dims)\<close>: dimension \<open>j\<close> of the result is dimension \<open>dims ! j\<close> of \<open>t\<close>; it raises
  unless \<open>dims\<close> is a permutation of the dimensions of \<open>t\<close>.\<close>

definition permute :: "tensor \<Rightarrow> nat list \<Rightarrow> tensor option" where
  "permute t dims =
     (if sort dims = [0..<length (shape t)]
      then Some (tabulate (map (\<lambda>d. shape t ! d) dims)
                   (\<lambda>idx. get t (map (\<lambda>k. idx ! index_of dims k) [0..<length dims])))
      else None)"

record CustomPixelShuffle =
  upscale_factor :: nat

definition CustomPixelShuffle_forward :: "CustomPixelShuffle \<Rightarrow> tensor \<Rightarrow> tensor option" where
  "CustomPixelShuffle_forward self x =
     (case shape x of
        [b, c, h, w] \<Rightarrow>
          (let blocksize = upscale_factor self in
           if blocksize = 0 then None
           else do {
             tmp \<leftarrow> reshape x [b, c div blocksize ^ 2, blocksize, blocksize, h, w];
             tmp \<leftarrow> permute tmp [0, 1, 4, 2, 5, 3];
             reshape tmp [b, c div blocksize ^ 2, h * blocksize, w * blocksize]
           })
      | _ \<Rightarrow> None)"

text \<open>The standard pixel shuffle with upscale factor \<open>r\<close>, as the documentation of
  \<open>nn.PixelShuffle\<close> states it: an input of shape \<open>(b, c, h, w)\<close> gives an output of shape
  \<open>(b, c / r\<^sup>2, h r, w r)\<close> whose entry at \<open>[n, q, y, x]\<close> is the input's entry at
  \<open>[n, q r\<^sup>2 + (y mod r) r + x mod r, y div r, x div r]\<close>.\<close>

definition PixelShuffle_reference :: "nat \<Rightarrow> tensor \<Rightarrow> tensor" where
  "PixelShuffle_reference r x =
     tabulate [shape x ! 0, shape x ! 1 div r ^ 2, shape x ! 2 * r, shape x ! 3 * r]
       (\<lambda>idx. get x [idx ! 0, idx ! 1 * r ^ 2 + (idx ! 2 mod r) * r + idx ! 3 mod r,
                      idx ! 2 div r, idx ! 3 div r])"

section \<open>LayerNormFunction and LayerNorm2d\<close>

text \<open>\<open>t.sum(d, keepdim)\<close> adds the entries along dimension \<open>d\<close>, which is kept with size 1 or
  dropped; \<open>t.mean(d, keepdim)\<close> divides that sum by the size of dimension \<open>d\<close>. Division
  and square root are those of the real numbers, total in HOL: a floating-point \<open>nan\<close> or
  \<open>inf\<close> (a mean over no entries, a division by zero, the root of a negative number) has no
  counterpart here.\<close>

definition sum_dim :: "tensor \<Rightarrow> nat \<Rightarrow> bool \<Rightarrow> tensor option" where
  "sum_dim t d keepdim =
     (if length (shape t) \<le> d then None
      else Some (tabulate (if keepdim then (shape t)[d := 1]
                           else take d (shape t) @ drop (Suc d) (shape t))
                  (\<lambda>idx. \<Sum>i\<leftarrow>[0..<shape t ! d].
                     get t (if keepdim then idx[d := i] else take d idx @ i # drop d idx))))"

definition mean_dim :: "tensor \<Rightarrow> nat \<Rightarrow> bool \<Rightarrow> tensor option" where
  "mean_dim t d keepdim =
     map_option (map_tensor (\<lambda>v. v / real (shape t ! d))) (sum_dim t d keepdim)"

definition pow :: "tensor \<Rightarrow> nat \<Rightarrow> tensor" where
  "pow t n = map_tensor (\<lambda>v. v ^ n) t"

definition sqrt_t :: "tensor \<Rightarrow> tensor" where
  "sqrt_t t = map_tensor sqrt t"

definition add_scalar :: "tensor \<Rightarrow> real \<Rightarrow> tensor" where
  "add_scalar t c = map_tensor (\<lambda>v. v + c) t"

text \<open>\<open>t.view(s)\<close> of a contiguous tensor: the same entries under a new shape of the same
  size.\<close>

definition view :: "tensor \<Rightarrow> nat list \<Rightarrow> tensor option" where
  "view t s = (if prod_list s = numel t then Some (Tensor s (data t)) else None)"

text \<open>The context object of the autograd function: \<open>ctx.eps\<close> and the tensors
  \<open>y, var, weight\<close> given to \<open>ctx.save_for_backward\<close>.\<close>

record ctx =
  ctx_eps :: real
  saved_variables :: "tensor \<times> tensor \<times> tensor"

definition LayerNormFunction_forward ::
    "tensor \<Rightarrow> tensor \<Rightarrow> tensor \<Rightarrow> real \<Rightarrow> (ctx \<times> tensor) option" where
  "LayerNormFunction_forward x weight bias eps =
     (case shape x of
        [N, C, H, W] \<Rightarrow> do {
          mu \<leftarrow> mean_dim x 1 True;
          d \<leftarrow> sub x mu;
          var \<leftarrow> mean_dim (pow d 2) 1 True;
          d \<leftarrow> sub x mu;
          y \<leftarrow> divide_t d (sqrt_t (add_scalar var eps));
          w \<leftarrow> view weight [1, C, 1, 1];
          wy \<leftarrow> mul w y;
          b \<leftarrow> view bias [1, C, 1, 1];
          out \<leftarrow> add wy b;
          Some (\<lparr>ctx_eps = eps, saved_variables = (y, var, weight)\<rparr>, out)
        }
      | _ \<Rightarrow> None)"

definition LayerNorm2d_forward :: "LayerNorm2d \<Rightarrow> tensor \<Rightarrow> tensor option" where
  "LayerNorm2d_forward self x =
     map_option snd (LayerNormFunction_forward x (ln_weight self) (ln_bias self) (ln_eps self))"

text \<open>The statistics that the normalisation is specified with: the mean of the entries
  \<open>x[n, \<cdot>, h, w]\<close> over the \<open>C\<close> channels, and their biased (population) variance.\<close>

definition channel_mean :: "tensor \<Rightarrow> nat \<Rightarrow> nat \<Rightarrow> nat \<Rightarrow> nat \<Rightarrow> real" where
  "channel_mean x C n h w = (\<Sum>k<C. get x [n, k, h, w]) / real C"

definition channel_var :: "tensor \<Rightarrow> nat \<Rightarrow> nat \<Rightarrow> nat \<Rightarrow> nat \<Rightarrow> real" where
  "channel_var x C n h w = (\<Sum>k<C. (get x [n, k, h, w] - channel_mean x C n h w) ^ 2) / real C"

section \<open>Convolutions and the GlobalContextExtractor\<close>

text \<open>\<open>F.conv2d(input, weight, bias, stride, padding, dilation = 1, groups)\<close> on a batched
  input \<open>(N, C, H, W)\<close> with a weight \<open>(O, I, KH, KW)\<close>. It raises on a stride or a group
  count of 0, on fewer output channels than groups or a number that the groups do not
  divide, when the input has not \<open>Ci * groups\<close> channels, when the bias is not a vector of
  length \<open>Co\<close>, when the zero-padded input is smaller than the kernel, and on an input
  without entries unless the batch is empty. Output channel \<open>o\<close> reads the \<open>Ci\<close> input
  channels of its group \<open>o div (Co div groups)\<close>.\<close>

definition conv2d ::
    "tensor \<Rightarrow> tensor \<Rightarrow> tensor option \<Rightarrow> nat \<Rightarrow> nat \<Rightarrow> nat \<Rightarrow> tensor option" where
  "conv2d input weight bias stride padding groups =
     (case shape input of
        [N, C, H, W] \<Rightarrow>
          (case shape weight of
             [Co, Ci, KH, KW] \<Rightarrow>
               if stride = 0 \<or> groups = 0 \<or> Co < groups \<or> Co mod groups \<noteq> 0
                  \<or> C \<noteq> Ci * groups
                  \<or> (case bias of None \<Rightarrow> False | Some b \<Rightarrow> shape b \<noteq> [Co])
                  \<or> KH = 0 \<or> KW = 0
                  \<or> H + 2 * padding < KH \<or> W + 2 * padding < KW
                  \<or> (N \<noteq> 0 \<and> (C = 0 \<or> H = 0 \<or> W = 0))
               then None
               else Some (tabulate [N, Co, (H + 2 * padding - KH) div stride + 1,
                                    (W + 2 * padding - KW) div stride + 1]
                 (\<lambda>idx.
                    (\<Sum>c\<leftarrow>[0..<Ci]. \<Sum>u\<leftarrow>[0..<KH]. \<Sum>v\<leftarrow>[0..<KW].
                       (let y = idx ! 2 * stride + u; x = idx ! 3 * stride + v
                        in if padding \<le> y \<and> y < padding + H \<and> padding \<le> x \<and> x < padding + W
                           then get input [idx ! 0, (idx ! 1 div (Co div groups)) * Ci + c,
                                           y - padding, x - padding]
                           else 0)
                       * get weight [idx ! 1, c, u, v])
                    + (case bias of None \<Rightarrow> 0 | Some b \<Rightarrow> get b [idx ! 1])))
           | _ \<Rightarrow> None)
      | _ \<Rightarrow> None)"

text \<open>\<open>nn.Conv2d.forward\<close>; an unbatched input \<open>(C, H, W)\<close> is given a batch dimension of
  size 1, which is removed from the result.\<close>

definition Conv2d_forward :: "Conv2d \<Rightarrow> tensor \<Rightarrow> tensor option" where
  "Conv2d_forward self x =
     (if length (shape x) = 3
      then map_option (\<lambda>y. Tensor (tl (shape y)) (data y))
             (conv2d (Tensor (1 # shape x) (data x)) (conv_weight self) (conv_bias self)
                (conv_stride self) (conv_padding self) (conv_groups self))
      else conv2d x (conv_weight self) (conv_bias self) (conv_stride self)
             (conv_padding self) (conv_groups self))"

text \<open>\<open>F.gelu(x, approximate = "tanh")\<close>.\<close>

definition gelu_tanh :: "real \<Rightarrow> real" where
  "gelu_tanh v = 0.5 * v * (1 + tanh (sqrt (2 / pi) * (v + 0.044715 * v ^ 3)))"

definition gelu :: "tensor \<Rightarrow> tensor" where
  "gelu t = map_tensor gelu_tanh t"

record depthwise_separable_conv =
  pointwise :: Conv2d
  depthwise :: Conv2d

definition depthwise_separable_conv_forward ::
    "depthwise_separable_conv \<Rightarrow> tensor \<Rightarrow> tensor option" where
  "depthwise_separable_conv_forward self x =
     do {
       x \<leftarrow> Conv2d_forward (depthwise self) x;
       Conv2d_forward (pointwise self) x
     }"

record GlobalContextExtractor =
  depthwise_separable_convs :: "depthwise_separable_conv list"

text \<open>The loop of \<open>GlobalContextExtractor.forward\<close> over the rest of the convolutions, with
  the current \<open>x\<close> and the list \<open>outputs\<close> built so far.\<close>

fun GlobalContextExtractor_loop ::
    "depthwise_separable_conv list \<Rightarrow> tensor \<Rightarrow> tensor list \<Rightarrow> tensor list option" where
  "GlobalContextExtractor_loop [] x outputs = Some outputs"
| "GlobalContextExtractor_loop (conv # convs) x outputs =
     (case depthwise_separable_conv_forward conv x of
        None \<Rightarrow> None
      | Some c \<Rightarrow> GlobalContextExtractor_loop convs (gelu c) (outputs @ [gelu c]))"

definition GlobalContextExtractor_forward ::
    "GlobalContextExtractor \<Rightarrow> tensor \<Rightarrow> tensor list option" where
  "GlobalContextExtractor_forward self x =
     GlobalContextExtractor_loop (depthwise_separable_convs self) x []"

section \<open>Pooling, upsampling, concatenation and dropout\<close>

text \<open>\<open>nn.AdaptiveAvgPool2d(1)\<close>: the mean over the last two dimensions, which are kept with
  size 1.\<close>

definition AdaptiveAvgPool2d_forward :: "tensor \<Rightarrow> tensor option" where
  "AdaptiveAvgPool2d_forward x =
     (let n = length (shape x) in
      if n < 2 then None
      else do {
        s \<leftarrow> sum_dim x (n - 1) True;
        s \<leftarrow> sum_dim s (n - 2) True;
        Some (map_tensor (\<lambda>v. v / real (shape x ! (n - 2) * shape x ! (n - 1))) s)
      })"

text \<open>\<open>UpsampleWithFlops(size = (h, w), mode = 'nearest')\<close>: the module counts the entries of
  its inputs in \<open>__flops__\<close> and resizes a batched image to \<open>h \<times> w\<close>, entry \<open>(i, j)\<close> of the
  result being entry \<open>(i H div h, j W div w)\<close> of the \<open>H \<times> W\<close> input. The module after the call
  is returned with the result.\<close>

record UpsampleWithFlops =
  up_size :: "nat \<times> nat"
  flops :: nat

definition UpsampleWithFlops_forward ::
    "UpsampleWithFlops \<Rightarrow> tensor \<Rightarrow> (UpsampleWithFlops \<times> tensor) option" where
  "UpsampleWithFlops_forward self input =
     (case shape input of
        [N, C, H, W] \<Rightarrow>
          (case up_size self of (h, w) \<Rightarrow>
             if C = 0 \<or> H = 0 \<or> W = 0 \<or> h = 0 \<or> w = 0 then None
             else Some (self\<lparr>flops := flops self + numel input\<rparr>,
                        tabulate [N, C, h, w]
                          (\<lambda>idx. get input [idx ! 0, idx ! 1, idx ! 2 * H div h,
                                              idx ! 3 * W div w])))
      | _ \<Rightarrow> None)"

text \<open>\<open>torch.cat(ts, dim = d)\<close>: the tensors must agree in every dimension but \<open>d\<close>.\<close>

fun cat_get :: "tensor list \<Rightarrow> nat \<Rightarrow> nat list \<Rightarrow> real" where
  "cat_get [] d idx = 0"
| "cat_get (t # ts) d idx =
     (if idx ! d < shape t ! d then get t idx
      else cat_get ts d (idx[d := idx ! d - shape t ! d]))"

definition cat :: "tensor list \<Rightarrow> nat \<Rightarrow> tensor option" where
  "cat ts d =
     (case ts of
        [] \<Rightarrow> None
      | t # rest \<Rightarrow>
          if length (shape t) \<le> d
             \<or> list_ex (\<lambda>u. length (shape u) \<noteq> length (shape t)
                            \<or> (shape u)[d := 0] \<noteq> (shape t)[d := 0]) rest
          then None
          else Some (tabulate ((shape t)[d := sum_list (map (\<lambda>u. shape u ! d) ts)])
                       (cat_get ts d)))"

text \<open>The modules \<open>nn.Identity()\<close> and \<open>nn.Dropout(p)\<close>. A dropout module in training mode
  draws a mask of zeros and ones and returns \<open>x * mask / (1 - p)\<close>; the mask of the call
  is part of the module here, and is absent in evaluation mode, where the module returns
  its input.\<close>

datatype dropout_module = Identity | Dropout real "tensor option"

fun dropout_module_forward :: "dropout_module \<Rightarrow> tensor \<Rightarrow> tensor option" where
  "dropout_module_forward Identity x = Some x"
| "dropout_module_forward (Dropout p None) x = Some x"
| "dropout_module_forward (Dropout p (Some m)) x =
     map_option (map_tensor (\<lambda>v. v / (1 - p))) (mul x m)"

section \<open>CascadedGazeBlock and NAFBlock0\<close>

text \<open>The field \<open>sca\<close> of both blocks holds the convolution of
  \<open>nn.Sequential(nn.AdaptiveAvgPool2d(1), nn.Conv2d(\<dots>))\<close>.\<close>

definition sca_forward :: "Conv2d \<Rightarrow> tensor \<Rightarrow> tensor option" where
  "sca_forward conv x = do { p \<leftarrow> AdaptiveAvgPool2d_forward x; Conv2d_forward conv p }"

record CascadedGazeBlock =
  dw_channel :: nat
  GCE_Conv :: nat
  conv1 :: Conv2d
  conv2 :: Conv2d
  GCE :: GlobalContextExtractor
  project_out :: Conv2d
  sca :: Conv2d
  conv4 :: Conv2d
  conv5 :: Conv2d
  norm1 :: LayerNorm2d
  norm2 :: LayerNorm2d
  dropout1 :: dropout_module
  dropout2 :: dropout_module
  beta :: tensor
  gamma :: tensor

text \<open>The three or two calls of \<open>self.upsample\<close> on the outputs of the context extractor,
  the module passed from one call to the next.\<close>

fun upsample_all ::
    "UpsampleWithFlops \<Rightarrow> tensor list \<Rightarrow> (UpsampleWithFlops \<times> tensor list) option" where
  "upsample_all u [] = Some (u, [])"
| "upsample_all u (x # xs) =
     (case UpsampleWithFlops_forward u x of
        None \<Rightarrow> None
      | Some (u', y) \<Rightarrow>
          (case upsample_all u' xs of
             None \<Rightarrow> None
           | Some (u'', ys) \<Rightarrow> Some (u'', y # ys)))"

definition CascadedGazeBlock_forward :: "CascadedGazeBlock \<Rightarrow> tensor \<Rightarrow> tensor option" where
  "CascadedGazeBlock_forward self inp =
     (case shape inp of
        [b, c, h, w] \<Rightarrow> do {
          let upsample = \<lparr>up_size = (h, w), flops = 0\<rparr>;
          x \<leftarrow> LayerNorm2d_forward (CascadedGazeBlock.norm1 self) inp;
          x \<leftarrow> Conv2d_forward (CascadedGazeBlock.conv1 self) x;
          x \<leftarrow> Conv2d_forward (CascadedGazeBlock.conv2 self) x;
          let x = gelu x;
          halves \<leftarrow> chunk x 2 1;
          (case halves of
             [x_1, x_2] \<Rightarrow> do {
               s \<leftarrow> add x_1 x_2;
               outs \<leftarrow> GlobalContextExtractor_forward (GCE self) s;
               ups \<leftarrow> (if GCE_Conv self = 3
                       then (case outs of [x1, x2, x3] \<Rightarrow> upsample_all upsample [x1, x2, x3]
                             | _ \<Rightarrow> None)
                       else (case outs of [x1, x2] \<Rightarrow> upsample_all upsample [x1, x2]
                             | _ \<Rightarrow> None));
               x \<leftarrow> cat (x # snd ups) 1;
               a \<leftarrow> sca_forward (CascadedGazeBlock.sca self) x;
               x \<leftarrow> mul a x;
               x \<leftarrow> Conv2d_forward (project_out self) x;
               x \<leftarrow> dropout_module_forward (CascadedGazeBlock.dropout1 self) x;
               xb \<leftarrow> mul x (CascadedGazeBlock.beta self);
               y \<leftarrow> add inp xb;
               n \<leftarrow> LayerNorm2d_forward (CascadedGazeBlock.norm2 self) y;
               x \<leftarrow> Conv2d_forward (CascadedGazeBlock.conv4 self) n;
               x \<leftarrow> SimpleGate_forward x;
               x \<leftarrow> Conv2d_forward (CascadedGazeBlock.conv5 self) x;
               x \<leftarrow> dropout_module_forward (CascadedGazeBlock.dropout2 self) x;
               xg \<leftarrow> mul x (CascadedGazeBlock.gamma self);
               add y xg
             }
           | _ \<Rightarrow> None)
        }
      | _ \<Rightarrow> None)"

record NAFBlock0 =
  conv1 :: Conv2d
  conv2 :: Conv2d
  conv3 :: Conv2d
  sca :: Conv2d
  conv4 :: Conv2d
  conv5 :: Conv2d
  norm1 :: LayerNorm2d
  norm2 :: LayerNorm2d
  dropout1 :: dropout_module
  dropout2 :: dropout_module
  beta :: tensor
  gamma :: tensor

definition NAFBlock0_forward :: "NAFBlock0 \<Rightarrow> tensor \<Rightarrow> tensor option" where
  "NAFBlock0_forward self inp =
     do {
       x \<leftarrow> LayerNorm2d_forward (NAFBlock0.norm1 self) inp;
       x \<leftarrow> Conv2d_forward (NAFBlock0.conv1 self) x;
       x \<leftarrow> Conv2d_forward (NAFBlock0.conv2 self) x;
       x \<leftarrow> SimpleGate_forward x;
       a \<leftarrow> sca_forward (NAFBlock0.sca self) x;
       x \<leftarrow> mul x a;
       x \<leftarrow> Conv2d_forward (NAFBlock0.conv3 self) x;
       x \<leftarrow> dropout_module_forward (NAFBlock0.dropout1 self) x;
       xb \<leftarrow> mul x (NAFBlock0.beta self);
       y \<leftarrow> add inp xb;
       n \<leftarrow> LayerNorm2d_forward (NAFBlock0.norm2 self) y;
       x \<leftarrow> Conv2d_forward (NAFBlock0.conv4 self) n;
       x \<leftarrow> SimpleGate_forward x;
       x \<leftarrow> Conv2d_forward (NAFBlock0.conv5 self) x;
       x \<leftarrow> dropout_module_forward (NAFBlock0.dropout2 self) x;
       xg \<leftarrow> mul x (NAFBlock0.gamma self);
       add y xg
     }"

section \<open>The network\<close>

record CascadedGaze_modules = CascadedGaze +
  intro :: Conv2d
  ending :: Conv2d
  encoders :: "CascadedGazeBlock list list"
  decoders :: "NAFBlock0 list list"
  middle_blks :: "NAFBlock0 list"
  ups :: "(Conv2d \<times> CustomPixelShuffle) list"
  downs :: "Conv2d list"

text \<open>\<open>nn.Sequential\<close> of modules with the forward function \<open>f\<close>.\<close>

fun Sequential_forward :: "('m \<Rightarrow> tensor \<Rightarrow> tensor option) \<Rightarrow> 'm list \<Rightarrow> tensor \<Rightarrow> tensor option" where
  "Sequential_forward f [] x = Some x"
| "Sequential_forward f (m # ms) x =
     (case f m x of None \<Rightarrow> None | Some y \<Rightarrow> Sequential_forward f ms y)"

text \<open>An element of \<open>self.ups\<close>: a convolution followed by the pixel shuffle.\<close>

definition up_forward :: "Conv2d \<times> CustomPixelShuffle \<Rightarrow> tensor \<Rightarrow> tensor option" where
  "up_forward up x = do { x \<leftarrow> Conv2d_forward (fst up) x; CustomPixelShuffle_forward (snd up) x }"

text \<open>The loop over \<open>zip(self.encoders, self.downs)\<close>, with the current \<open>x\<close> and the list
  \<open>encs\<close> built so far.\<close>

fun encoder_loop ::
    "(CascadedGazeBlock list \<times> Conv2d) list \<Rightarrow> tensor \<Rightarrow> tensor list
       \<Rightarrow> (tensor \<times> tensor list) option" where
  "encoder_loop [] x encs = Some (x, encs)"
| "encoder_loop ((encoder, down) # rest) x encs =
     (case Sequential_forward CascadedGazeBlock_forward encoder x of
        None \<Rightarrow> None
      | Some x \<Rightarrow>
          (case Conv2d_forward down x of
             None \<Rightarrow> None
           | Some x' \<Rightarrow> encoder_loop rest x' (encs @ [x])))"

text \<open>The loop over \<open>zip(self.decoders, self.ups, encs[::-1])\<close>.\<close>

fun decoder_loop ::
    "(NAFBlock0 list \<times> (Conv2d \<times> CustomPixelShuffle) \<times> tensor) list \<Rightarrow> tensor
       \<Rightarrow> tensor option" where
  "decoder_loop [] x = Some x"
| "decoder_loop ((decoder, up, enc_skip) # rest) x =
     (case up_forward up x of
        None \<Rightarrow> None
      | Some x \<Rightarrow>
          (case add x enc_skip of
             None \<Rightarrow> None
           | Some x \<Rightarrow>
               (case Sequential_forward NAFBlock0_forward decoder x of
                  None \<Rightarrow> None
                | Some x \<Rightarrow> decoder_loop rest x)))"

text \<open>The slice \<open>x[:, :, :H, :W]\<close>.\<close>

definition slice_height_width :: "tensor \<Rightarrow> nat \<Rightarrow> nat \<Rightarrow> tensor option" where
  "slice_height_width x H W =
     (if length (shape x) < 4 then None
      else Some (narrow (narrow x 2 0 (min H (shape x ! 2))) 3 0 (min W (shape x ! 3))))"

definition CascadedGaze_forward :: "CascadedGaze_modules \<Rightarrow> tensor \<Rightarrow> tensor option" where
  "CascadedGaze_forward self inp =
     (case shape inp of
        [B, C, H, W] \<Rightarrow> do {
          inp \<leftarrow> check_image_size self inp;
          x \<leftarrow> Conv2d_forward (intro self) inp;
          r \<leftarrow> encoder_loop (zip (encoders self) (downs self)) x [];
          x \<leftarrow> Sequential_forward NAFBlock0_forward (middle_blks self) (fst r);
          x \<leftarrow> decoder_loop (zip (decoders self) (zip (ups self) (rev (snd r)))) x;
          x \<leftarrow> Conv2d_forward (ending self) x;
          x \<leftarrow> add x inp;
          slice_height_width x H W
        }
      | _ \<Rightarrow> None)"

section \<open>Construction of the modules\<close>

text \<open>The constructors. The initial entries of the convolution weights and biases, random
  in the source, are given by a function \<open>w\<close> of the index. \<open>nn.Conv2d\<close> raises when the
  number of groups is 0 or does not divide both channel counts.\<close>

definition Conv2d_init ::
    "nat \<Rightarrow> nat \<Rightarrow> nat \<Rightarrow> nat \<Rightarrow> nat \<Rightarrow> nat \<Rightarrow> bool \<Rightarrow> (nat list \<Rightarrow> real) \<Rightarrow> Conv2d option" where
  "Conv2d_init in_channels out_channels kernel_size stride padding groups has_bias w =
     (if groups = 0 \<or> in_channels mod groups \<noteq> 0 \<or> out_channels mod groups \<noteq> 0 then None
      else Some \<lparr>conv_weight = tabulate [out_channels, in_channels div groups,
                                          kernel_size, kernel_size] w,
                 conv_bias = (if has_bias then Some (tabulate [out_channels] w) else None),
                 conv_stride = stride, conv_padding = padding, conv_groups = groups\<rparr>)"

definition LayerNorm2d_init :: "nat \<Rightarrow> real \<Rightarrow> LayerNorm2d" where
  "LayerNorm2d_init channels eps =
     \<lparr>ln_weight = ones [channels], ln_bias = zeros [channels], ln_eps = eps\<rparr>"

definition depthwise_separable_conv_init ::
    "nat \<Rightarrow> nat \<Rightarrow> nat \<Rightarrow> nat \<Rightarrow> nat \<Rightarrow> bool \<Rightarrow> (nat list \<Rightarrow> real)
       \<Rightarrow> depthwise_separable_conv option" where
  "depthwise_separable_conv_init nin nout kernel_size padding stide has_bias w =
     do {
       pw \<leftarrow> Conv2d_init nin nout 1 1 0 1 has_bias w;
       dw \<leftarrow> Conv2d_init nin nin kernel_size stide padding nin has_bias w;
       Some \<lparr>pointwise = pw, depthwise = dw\<rparr>
     }"

definition GlobalContextExtractor_init ::
    "nat \<Rightarrow> nat list \<Rightarrow> nat list \<Rightarrow> nat \<Rightarrow> bool \<Rightarrow> (nat list \<Rightarrow> real)
       \<Rightarrow> GlobalContextExtractor option" where
  "GlobalContextExtractor_init c kernel_sizes strides padding has_bias w =
     map_option (\<lambda>convs. \<lparr>depthwise_separable_convs = convs\<rparr>)
       (those (map (\<lambda>(kernel_size, stride).
                      depthwise_separable_conv_init c c kernel_size padding stride has_bias w)
                 (zip kernel_sizes strides)))"

definition CascadedGazeBlock_init ::
    "nat \<Rightarrow> nat \<Rightarrow> nat \<Rightarrow> nat \<Rightarrow> real \<Rightarrow> (nat list \<Rightarrow> real) \<Rightarrow> CascadedGazeBlock option" where
  "CascadedGazeBlock_init c gce_conv DW_Expand FFN_Expand drop_out_rate w =
     (let dw = c * DW_Expand; ffn_channel = FFN_Expand * c in
      do {
        c1 \<leftarrow> Conv2d_init c dw 1 1 0 1 True w;
        c2 \<leftarrow> Conv2d_init dw dw 3 1 1 dw True w;
        g \<leftarrow> (if gce_conv = 3 then GlobalContextExtractor_init c [2, 4, 4] [2, 4, 4] 0 False w
              else GlobalContextExtractor_init c [3, 3] [2, 3] 0 False w);
        po \<leftarrow> (if gce_conv = 3 then Conv2d_init (dw * 5 div 2) c 1 1 0 1 True w
               else Conv2d_init (dw * 2) c 1 1 0 1 True w);
        sc \<leftarrow> (if gce_conv = 3 then Conv2d_init (dw * 5 div 2) (dw * 5 div 2) 1 1 0 1 True w
               else Conv2d_init (dw * 2) (dw * 2) 1 1 0 1 True w);
        c4 \<leftarrow> Conv2d_init c ffn_channel 1 1 0 1 True w;
        c5 \<leftarrow> Conv2d_init (ffn_channel div 2) c 1 1 0 1 True w;
        Some \<lparr>dw_channel = dw, GCE_Conv = gce_conv, conv1 = c1, conv2 = c2, GCE = g,
               project_out = po, sca = sc, conv4 = c4, conv5 = c5,
               norm1 = LayerNorm2d_init c (1 / 10 ^ 6), norm2 = LayerNorm2d_init c (1 / 10 ^ 6),
               dropout1 = (if drop_out_rate > 0 then Dropout drop_out_rate None else Identity),
               dropout2 = (if drop_out_rate > 0 then Dropout drop_out_rate None else Identity),
               beta = zeros [1, c, 1, 1], gamma = zeros [1, c, 1, 1]\<rparr>
      })"

definition NAFBlock0_init ::
    "nat \<Rightarrow> nat \<Rightarrow> nat \<Rightarrow> real \<Rightarrow> (nat list \<Rightarrow> real) \<Rightarrow> NAFBlock0 option" where
  "NAFBlock0_init c DW_Expand FFN_Expand drop_out_rate w =
     (let dw = c * DW_Expand; ffn_channel = FFN_Expand * c in
      do {
        c1 \<leftarrow> Conv2d_init c dw 1 1 0 1 True w;
        c2 \<leftarrow> Conv2d_init dw dw 3 1 1 dw True w;
        c3 \<leftarrow> Conv2d_init (dw div 2) c 1 1 0 1 True w;
        sc \<leftarrow> Conv2d_init (dw div 2) (dw div 2) 1 1 0 1 True w;
        c4 \<leftarrow> Conv2d_init c ffn_channel 1 1 0 1 True w;
        c5 \<leftarrow> Conv2d_init (ffn_channel div 2) c 1 1 0 1 True w;
        Some \<lparr>NAFBlock0.conv1 = c1, conv2 = c2, conv3 = c3, sca = sc, conv4 = c4, conv5 = c5,
               norm1 = LayerNorm2d_init c (1 / 10 ^ 6), norm2 = LayerNorm2d_init c (1 / 10 ^ 6),
               dropout1 = (if drop_out_rate > 0 then Dropout drop_out_rate None else Identity),
               dropout2 = (if drop_out_rate > 0 then Dropout drop_out_rate None else Identity),
               beta = zeros [1, c, 1, 1], gamma = zeros [1, c, 1, 1]\<rparr>
      })"

section \<open>Shapes of the parameters\<close>

text \<open>A trained module has the parameter shapes that its constructor gave it, with any
  entries. The following predicates state these shapes: for a convolution with its
  constructor's arguments, for the blocks with the channel count \<open>c\<close> and the expansion
  factors 2 that the network uses.\<close>

definition Conv2d_shapes ::
    "Conv2d \<Rightarrow> nat \<Rightarrow> nat \<Rightarrow> nat \<Rightarrow> nat \<Rightarrow> nat \<Rightarrow> nat \<Rightarrow> bool \<Rightarrow> bool" where
  "Conv2d_shapes self in_channels out_channels kernel_size stride padding groups has_bias =
     (shape (conv_weight self) = [out_channels, in_channels div groups, kernel_size, kernel_size]
      \<and> (case conv_bias self of None \<Rightarrow> \<not> has_bias
          | Some b \<Rightarrow> has_bias \<and> shape b = [out_channels])
      \<and> conv_stride self = stride \<and> conv_padding self = padding \<and> conv_groups self = groups)"

definition LayerNorm2d_shapes :: "LayerNorm2d \<Rightarrow> nat \<Rightarrow> bool" where
  "LayerNorm2d_shapes self channels =
     (shape (ln_weight self) = [channels] \<and> shape (ln_bias self) = [channels])"

definition depthwise_separable_conv_shapes ::
    "depthwise_separable_conv \<Rightarrow> nat \<Rightarrow> nat \<Rightarrow> nat \<Rightarrow> nat \<Rightarrow> nat \<Rightarrow> bool" where
  "depthwise_separable_conv_shapes self nin nout kernel_size padding stide =
     (Conv2d_shapes (pointwise self) nin nout 1 1 0 1 False
      \<and> Conv2d_shapes (depthwise self) nin nin kernel_size stide padding nin False)"

definition GlobalContextExtractor_shapes ::
    "GlobalContextExtractor \<Rightarrow> nat \<Rightarrow> nat list \<Rightarrow> nat list \<Rightarrow> bool" where
  "GlobalContextExtractor_shapes self c kernel_sizes strides =
     list_all2 (\<lambda>conv (kernel_size, stride).
                  depthwise_separable_conv_shapes conv c c kernel_size 0 stride)
       (depthwise_separable_convs self) (zip kernel_sizes strides)"

definition CascadedGazeBlock_shapes :: "CascadedGazeBlock \<Rightarrow> nat \<Rightarrow> nat \<Rightarrow> bool" where
  "CascadedGazeBlock_shapes self c gce_conv =
     (dw_channel self = c * 2 \<and> GCE_Conv self = gce_conv
      \<and> Conv2d_shapes (CascadedGazeBlock.conv1 self) c (c * 2) 1 1 0 1 True
      \<and> Conv2d_shapes (CascadedGazeBlock.conv2 self) (c * 2) (c * 2) 3 1 1 (c * 2) True
      \<and> (if gce_conv = 3
          then GlobalContextExtractor_shapes (GCE self) c [2, 4, 4] [2, 4, 4]
               \<and> Conv2d_shapes (project_out self) (c * 2 * 5 div 2) c 1 1 0 1 True
               \<and> Conv2d_shapes (CascadedGazeBlock.sca self) (c * 2 * 5 div 2) (c * 2 * 5 div 2)
                    1 1 0 1 True
          else GlobalContextExtractor_shapes (GCE self) c [3, 3] [2, 3]
               \<and> Conv2d_shapes (project_out self) (c * 2 * 2) c 1 1 0 1 True
               \<and> Conv2d_shapes (CascadedGazeBlock.sca self) (c * 2 * 2) (c * 2 * 2) 1 1 0 1 True)
      \<and> Conv2d_shapes (CascadedGazeBlock.conv4 self) c (2 * c) 1 1 0 1 True
      \<and> Conv2d_shapes (CascadedGazeBlock.conv5 self) (2 * c div 2) c 1 1 0 1 True
      \<and> LayerNorm2d_shapes (CascadedGazeBlock.norm1 self) c
      \<and> LayerNorm2d_shapes (CascadedGazeBlock.norm2 self) c
      \<and> shape (CascadedGazeBlock.beta self) = [1, c, 1, 1]
      \<and> shape (CascadedGazeBlock.gamma self) = [1, c, 1, 1])"

definition NAFBlock0_shapes :: "NAFBlock0 \<Rightarrow> nat \<Rightarrow> bool" where
  "NAFBlock0_shapes self c =
     (Conv2d_shapes (NAFBlock0.conv1 self) c (c * 2) 1 1 0 1 True
      \<and> Conv2d_shapes (NAFBlock0.conv2 self) (c * 2) (c * 2) 3 1 1 (c * 2) True
      \<and> Conv2d_shapes (NAFBlock0.conv3 self) (c * 2 div 2) c 1 1 0 1 True
      \<and> Conv2d_shapes (NAFBlock0.sca self) (c * 2 div 2) (c * 2 div 2) 1 1 0 1 True
      \<and> Conv2d_shapes (NAFBlock0.conv4 self) c (2 * c) 1 1 0 1 True
      \<and> Conv2d_shapes (NAFBlock0.conv5 self) (2 * c div 2) c 1 1 0 1 True
      \<and> LayerNorm2d_shapes (NAFBlock0.norm1 self) c
      \<and> LayerNorm2d_shapes (NAFBlock0.norm2 self) c
      \<and> shape (NAFBlock0.beta self) = [1, c, 1, 1]
      \<and> shape (NAFBlock0.gamma self) = [1, c, 1, 1])"

text \<open>The constructor of the network: the stages of \<open>__init__\<close>, with the channel count
  \<open>chan\<close> doubled after every encoder stage and halved before every decoder stage.\<close>

fun encoders_init ::
    "nat \<Rightarrow> (nat \<times> nat) list \<Rightarrow> (nat list \<Rightarrow> real)
       \<Rightarrow> ((CascadedGazeBlock list \<times> Conv2d) list \<times> nat) option" where
  "encoders_init chan [] w = Some ([], chan)"
| "encoders_init chan ((num, gce_convs) # rest) w =
     do {
       encoder \<leftarrow> those (replicate num (CascadedGazeBlock_init chan gce_convs 2 2 0 w));
       down \<leftarrow> Conv2d_init chan (2 * chan) 2 2 0 1 True w;
       r \<leftarrow> encoders_init (chan * 2) rest w;
       Some ((encoder, down) # fst r, snd r)
     }"

fun decoders_init ::
    "nat \<Rightarrow> nat list \<Rightarrow> (nat list \<Rightarrow> real)
       \<Rightarrow> ((NAFBlock0 list \<times> Conv2d \<times> CustomPixelShuffle) list \<times> nat) option" where
  "decoders_init chan [] w = Some ([], chan)"
| "decoders_init chan (num # rest) w =
     do {
       conv \<leftarrow> Conv2d_init chan (chan * 2) 1 1 0 1 False w;
       decoder \<leftarrow> those (replicate num (NAFBlock0_init (chan div 2) 2 2 0 w));
       r \<leftarrow> decoders_init (chan div 2) rest w;
       Some ((decoder, conv, \<lparr>upscale_factor = 2\<rparr>) # fst r, snd r)
     }"

definition CascadedGaze_init :: "nat \<Rightarrow> (nat list \<Rightarrow> real) \<Rightarrow> CascadedGaze_modules option" where
  "CascadedGaze_init img_channel w =
     (let width = 60; enc_blk_nums = [2, 2, 4, 6]; middle_blk_num = 10;
          dec_blk_nums = [2, 2, 2, 2]; GCE_CONVS_nums = [3, 3, 2, 2]
      in do {
        i \<leftarrow> Conv2d_init img_channel width 3 1 1 1 True w;
        e \<leftarrow> Conv2d_init width img_channel 3 1 1 1 True w;
        es \<leftarrow> encoders_init width (zip enc_blk_nums GCE_CONVS_nums) w;
        m \<leftarrow> those (replicate middle_blk_num (NAFBlock0_init (snd es) 2 2 0 w));
        ds \<leftarrow> decoders_init (snd es) dec_blk_nums w;
        Some \<lparr>padder_size = 2 ^ length (fst es), intro = i, ending = e,
               encoders = map fst (fst es), decoders = map fst (fst ds), middle_blks = m,
               ups = map snd (fst ds), downs = map snd (fst es)\<rparr>
      })"

text \<open>The parameter shapes of a network for images with \<open>img_channel\<close> channels: four encoder
  stages of 2, 2, 4 and 6 blocks at 60, 120, 240 and 480 channels, ten middle blocks at 960
  channels, four decoder stages of 2 blocks each; every block as its constructor makes it at
  drop-out rate 0.\<close>

definition CascadedGazeBlock_built :: "nat \<Rightarrow> nat \<Rightarrow> CascadedGazeBlock \<Rightarrow> bool" where
  "CascadedGazeBlock_built c gce_conv b =
     (CascadedGazeBlock_shapes b c gce_conv
      \<and> CascadedGazeBlock.dropout1 b = Identity \<and> CascadedGazeBlock.dropout2 b = Identity)"

definition NAFBlock0_built :: "nat \<Rightarrow> NAFBlock0 \<Rightarrow> bool" where
  "NAFBlock0_built c b =
     (NAFBlock0_shapes b c \<and> NAFBlock0.dropout1 b = Identity \<and> NAFBlock0.dropout2 b = Identity)"

definition CascadedGaze_shapes :: "CascadedGaze_modules \<Rightarrow> nat \<Rightarrow> bool" where
  "CascadedGaze_shapes self img_channel =
     (padder_size self = 2 ^ length (encoders self)
      \<and> Conv2d_shapes (intro self) img_channel 60 3 1 1 1 True
      \<and> Conv2d_shapes (ending self) 60 img_channel 3 1 1 1 True
      \<and> list_all2 (\<lambda>encoder (chan, num, gce_convs).
                      length encoder = num
                      \<and> list_all (CascadedGazeBlock_built chan gce_convs) encoder)
           (encoders self) [(60, 2, 3), (120, 2, 3), (240, 4, 2), (480, 6, 2)]
      \<and> list_all2 (\<lambda>down chan. Conv2d_shapes down chan (2 * chan) 2 2 0 1 True)
           (downs self) [60, 120, 240, 480]
      \<and> length (middle_blks self) = 10
      \<and> list_all (NAFBlock0_built 960) (middle_blks self)
      \<and> list_all2 (\<lambda>up chan. Conv2d_shapes (fst up) chan (chan * 2) 1 1 0 1 False
                               \<and> upscale_factor (snd up) = 2)
           (ups self) [960, 480, 240, 120]
      \<and> list_all2 (\<lambda>decoder chan. length decoder = 2 \<and> list_all (NAFBlock0_built chan) decoder)
           (decoders self) [480, 240, 120, 60])"

section \<open>Indexing lemmas\<close>

lemma length_indices: "length (indices s) = prod_list s"
proof (induction s)
  case Nil
  show ?case by simp
next
  case (Cons d ds)
  have "length (concat (map (\<lambda>i. map ((#) i) (indices ds)) [0..<d])) = d * prod_list ds"
    by (induction d) (simp_all add: Cons.IH)
  then show ?case by simp
qed

lemma concat_block_nth:
  assumes "\<And>i. i < d \<Longrightarrow> length (f i) = m" and "i < d" and "k < m"
  shows "concat (map f [0..<d]) ! (i * m + k) = f i ! k"
  using assms
proof (induction d)
  case 0
  then show ?case by simp
next
  case (Suc d)
  have len: "length (concat (map f [0..<d])) = d * m"
    using Suc.prems(1) by (induction d) simp_all
  show ?case
  proof (cases "i < d")
    case True
    then have "i * m + k < d * m"
    proof -
      have "i * m + k < i * m + m" using Suc.prems(3) by simp
      also have "\<dots> = Suc i * m" by simp
      also have "\<dots> \<le> d * m" using True by (intro mult_le_mono1) simp
      finally show ?thesis .
    qed
    then show ?thesis
      using Suc.IH [OF _ True Suc.prems(3)] Suc.prems(1) len by (simp add: nth_append)
  next
    case False
    then have "i = d" using Suc.prems(2) by simp
    then show ?thesis using len by (simp add: nth_append)
  qed
qed

lemma valid_index_Cons:
  "valid_index (d # ds) idx \<longleftrightarrow> (\<exists>i js. idx = i # js \<and> i < d \<and> valid_index ds js)"
  by (cases idx) (simp_all add: valid_index_def)

lemma valid_index_Nil [simp]: "valid_index [] idx \<longleftrightarrow> idx = []"
  by (simp add: valid_index_def)

lemma valid_index_length: "valid_index s idx \<Longrightarrow> length idx = length s"
  by (simp add: valid_index_def list_all2_lengthD)

lemma valid_index_nth: "valid_index s idx \<Longrightarrow> k < length s \<Longrightarrow> idx ! k < s ! k"
  by (simp add: valid_index_def list_all2_nthD2)

lemma flat_index_less: "valid_index s idx \<Longrightarrow> flat_index s idx < prod_list s"
proof (induction s arbitrary: idx)
  case Nil
  then show ?case by simp
next
  case (Cons d ds)
  then obtain i js where idx: "idx = i # js" "i < d" "valid_index ds js"
    by (auto simp: valid_index_Cons)
  have "i * prod_list ds + flat_index ds js < i * prod_list ds + prod_list ds"
    using Cons.IH [OF idx(3)] by simp
  also have "\<dots> = Suc i * prod_list ds" by simp
  also have "\<dots> \<le> d * prod_list ds" using idx(2) by (intro mult_le_mono1) simp
  finally show ?case using idx(1) by simp
qed

lemma indices_nth: "valid_index s idx \<Longrightarrow> indices s ! flat_index s idx = idx"
proof (induction s arbitrary: idx)
  case Nil
  then show ?case by simp
next
  case (Cons d ds)
  then obtain i js where idx: "idx = i # js" "i < d" "valid_index ds js"
    by (auto simp: valid_index_Cons)
  have k: "flat_index ds js < prod_list ds" using idx(3) by (rule flat_index_less)
  have "concat (map (\<lambda>i. map ((#) i) (indices ds)) [0..<d]) ! (i * prod_list ds + flat_index ds js)
        = map ((#) i) (indices ds) ! flat_index ds js"
    by (rule concat_block_nth) (simp_all add: length_indices idx(2) k)
  then show ?case using idx k Cons.IH [OF idx(3)] by (simp add: length_indices)
qed

lemma map_flat_index_indices: "map (flat_index s) (indices s) = [0..<prod_list s]"
proof (induction s)
  case Nil
  show ?case by simp
next
  case (Cons d ds)
  have blk: "map (flat_index (d # ds)) (map ((#) i) (indices ds)) = map (\<lambda>k. i * prod_list ds + k) [0..<prod_list ds]" for i
    using Cons.IH by (simp add: comp_def flip: map_map [of "\<lambda>k. i * prod_list ds + k" "flat_index ds", unfolded comp_def])
  have cc: "concat (map (\<lambda>i. map (\<lambda>k. i * m + k) [0..<m]) [0..<n]) = [0..<n * m]" for n m :: nat
  proof (induction n)
    case 0
    show ?case by simp
  next
    case (Suc n)
    have "map (\<lambda>k. n * m + k) [0..<m] = [n * m..<n * m + m]"
      by (simp add: map_add_upt add.commute)
    moreover have "[0..<n * m + m] = [0..<n * m] @ [n * m..<n * m + m]"
      by (rule upt_add_eq_append) simp
    ultimately show ?case using Suc by (simp add: add.commute)
  qed
  have "map (flat_index (d # ds)) (indices (d # ds))
        = concat (map (\<lambda>i. map (flat_index (d # ds)) (map ((#) i) (indices ds))) [0..<d])"
    by (simp add: map_concat comp_def)
  also have "\<dots> = concat (map (\<lambda>i. map (\<lambda>k. i * prod_list ds + k) [0..<prod_list ds]) [0..<d])"
    by (simp only: blk)
  also have "\<dots> = [0..<d * prod_list ds]" by (rule cc)
  finally show ?case by simp
qed

lemma set_indices: "set (indices s) = {idx. valid_index s idx}"
proof (induction s)
  case Nil
  show ?case by auto
next
  case (Cons d ds)
  show ?case by (auto simp: Cons.IH valid_index_Cons)
qed

lemma shape_tabulate [simp]: "shape (tabulate s f) = s"
  by (simp add: tabulate_def)

lemma wf_tabulate [simp]: "wf_tensor (tabulate s f)"
  by (simp add: tabulate_def wf_tensor_def length_indices)

lemma get_tabulate: "valid_index s idx \<Longrightarrow> get (tabulate s f) idx = f idx"
  by (simp add: get_def tabulate_def flat_index_less length_indices indices_nth)

lemma tabulate_get: "wf_tensor t \<Longrightarrow> tabulate (shape t) (get t) = t"
proof -
  assume wf: "wf_tensor t"
  have "map (get t) (indices (shape t)) = map ((!) (data t)) (map (flat_index (shape t)) (indices (shape t)))"
    by (simp add: get_def comp_def)
  also have "\<dots> = map ((!) (data t)) [0..<length (data t)]"
    using wf by (simp add: map_flat_index_indices wf_tensor_def)
  also have "\<dots> = data t" by (rule map_nth)
  finally show ?thesis by (simp add: tabulate_def)
qed

lemma tabulate_cong:
  "(\<And>idx. valid_index s idx \<Longrightarrow> f idx = g idx) \<Longrightarrow> tabulate s f = tabulate s g"
  by (simp add: tabulate_def set_indices)

lemma tensor_eqI:
  assumes "wf_tensor a" "wf_tensor b" "shape a = shape b"
    and "\<And>idx. valid_index (shape a) idx \<Longrightarrow> get a idx = get b idx"
  shows "a = b"
proof -
  have "tabulate (shape a) (get a) = tabulate (shape a) (get b)"
    using assms(4) by (rule tabulate_cong)
  moreover have "tabulate (shape a) (get a) = a"
    using assms(1) by (rule tabulate_get)
  moreover have "tabulate (shape a) (get b) = b"
    using assms(2) tabulate_get [of b] by (simp add: assms(3))
  ultimately show ?thesis by simp
qed

lemma valid_index4:
  "valid_index [n, c, h, w] idx \<longleftrightarrow>
     (\<exists>i j k l. idx = [i, j, k, l] \<and> i < n \<and> j < c \<and> k < h \<and> l < w)"
  by (auto simp: valid_index_Cons)


section \<open>Padding to a multiple of the padder size\<close>

lemma pad_amount_minimal:
  fixes h :: nat
  assumes "(h + p) mod 16 = 0"
  shows "(16 - h mod 16) mod 16 \<le> p"
proof (cases "h mod 16 = 0")
  case True
  then show ?thesis by simp
next
  case False
  have "(h mod 16 + p) mod 16 = 0"
    using assms by (simp add: mod_add_left_eq)
  then have "16 dvd h mod 16 + p" by (simp add: dvd_eq_mod_eq_0)
  moreover have "0 < h mod 16 + p" using False by simp
  ultimately have "16 \<le> h mod 16 + p" by (rule dvd_imp_le)
  then have "16 - h mod 16 \<le> p" by simp
  moreover have "(16 - h mod 16) mod 16 \<le> 16 - h mod 16" by (rule mod_less_eq_dividend)
  ultimately show ?thesis by (rule le_trans [rotated])
qed

lemma pad_bottom_right:
  assumes "shape x = [B, C, H, W]"
  shows "pad x (0, r, 0, b) = Some (tabulate [B, C, 0 + H + b, 0 + W + r]
     (\<lambda>idx. if 0 \<le> idx ! 2 \<and> idx ! 2 < 0 + H \<and> 0 \<le> idx ! 3 \<and> idx ! 3 < 0 + W
            then get x [idx ! 0, idx ! 1, idx ! 2 - 0, idx ! 3 - 0] else 0))"
  unfolding pad_def assms by (simp only: prod.case list.case)

lemma pad_spec:
  assumes "shape x = [B, C, H, W]"
  obtains y where "pad x (0, r, 0, b) = Some y" and "wf_tensor y"
    and "shape y = [B, C, H + b, W + r]"
    and "\<And>i j k l. i < B \<Longrightarrow> j < C \<Longrightarrow> k < H + b \<Longrightarrow> l < W + r \<Longrightarrow>
          get y [i, j, k, l] = (if k < H \<and> l < W then get x [i, j, k, l] else 0)"
proof
  let ?f = "\<lambda>idx. if 0 \<le> idx ! 2 \<and> idx ! 2 < 0 + H \<and> 0 \<le> idx ! 3 \<and> idx ! 3 < 0 + W
                    then get x [idx ! 0, idx ! 1, idx ! 2 - 0, idx ! 3 - 0] else 0"
  let ?y = "tabulate [B, C, 0 + H + b, 0 + W + r] ?f"
  show "pad x (0, r, 0, b) = Some ?y" by (rule pad_bottom_right [OF assms])
  show "wf_tensor ?y" by (rule wf_tabulate)
  show "shape ?y = [B, C, H + b, W + r]" by (simp only: shape_tabulate add_0)
  fix i j k l assume b: "i < B" "j < C" "k < H + b" "l < W + r"
  have "valid_index [B, C, 0 + H + b, 0 + W + r] [i, j, k, l]"
    using b by (simp add: valid_index4)
  then have "get ?y [i, j, k, l] = ?f [i, j, k, l]" by (rule get_tabulate)
  also have "\<dots> = (if k < H \<and> l < W then get x [i, j, k, l] else 0)" by simp
  finally show "get ?y [i, j, k, l] = (if k < H \<and> l < W then get x [i, j, k, l] else 0)" .
qed

lemma check_image_size_pad:
  assumes "shape x = [B, C, H, W]" and "0 < padder_size self"
  shows "check_image_size self x =
      pad x (0, (padder_size self - W mod padder_size self) mod padder_size self,
             0, (padder_size self - H mod padder_size self) mod padder_size self)"
proof -
  have n: "(padder_size self = 0) = False" using assms(2) by simp
  show ?thesis
    unfolding check_image_size_def assms(1) by (simp only: list.case Let_def n if_False)
qed

lemma check_image_size_spec:
  assumes "shape x = [B, C, H, W]" and "0 < padder_size self"
  obtains y where "check_image_size self x = Some y" and "wf_tensor y"
    and "shape y = [B, C, H + (padder_size self - H mod padder_size self) mod padder_size self,
                  W + (padder_size self - W mod padder_size self) mod padder_size self]"
    and "\<And>i j k l. i < B \<Longrightarrow> j < C
            \<Longrightarrow> k < H + (padder_size self - H mod padder_size self) mod padder_size self
            \<Longrightarrow> l < W + (padder_size self - W mod padder_size self) mod padder_size self
            \<Longrightarrow> get y [i, j, k, l] = (if k < H \<and> l < W then get x [i, j, k, l] else 0)"
proof -
  let ?r = "(padder_size self - W mod padder_size self) mod padder_size self"
  let ?b = "(padder_size self - H mod padder_size self) mod padder_size self"
  show thesis
  proof (rule pad_spec [OF assms(1), of ?r ?b])
    fix y
    assume p: "pad x (0, ?r, 0, ?b) = Some y" and w: "wf_tensor y"
      and s: "shape y = [B, C, H + ?b, W + ?r]"
      and e: "\<And>i j k l. i < B \<Longrightarrow> j < C \<Longrightarrow> k < H + ?b \<Longrightarrow> l < W + ?r \<Longrightarrow>
          get y [i, j, k, l] = (if k < H \<and> l < W then get x [i, j, k, l] else 0)"
    have c: "check_image_size self x = Some y"
      by (simp only: check_image_size_pad [OF assms] p)
    show thesis by (rule that [OF c w s e])
  qed
qed

lemma padder_size_16_pos: "padder_size self = 16 \<Longrightarrow> 0 < padder_size self"
  by simp

text \<open>C10: \<open>check_image_size\<close> returns a tensor whose height and width are those of the
  input plus \<open>(16 - H mod 16) mod 16\<close> and \<open>(16 - W mod 16) mod 16\<close>, the least amounts that
  reach a multiple of 16; every entry of the input is found at its own index in the result
  (the padding is at the bottom and on the right only); and an input whose height and width
  are already multiples of 16 is returned unchanged.\<close>

theorem check_image_size_minimal_pad:
  assumes "padder_size self = 16" and "shape x = [B, C, H, W]"
  shows "\<exists>y. check_image_size self x = Some y
     \<and> shape y = [B, C, H + (16 - H mod 16) mod 16, W + (16 - W mod 16) mod 16]
     \<and> (\<forall>b c h w. b < B \<and> c < C \<and> h < H \<and> w < W \<longrightarrow> get y [b, c, h, w] = get x [b, c, h, w])
     \<and> (\<forall>p. (H + p) mod 16 = 0 \<longrightarrow> (16 - H mod 16) mod 16 \<le> p)
     \<and> (\<forall>p. (W + p) mod 16 = 0 \<longrightarrow> (16 - W mod 16) mod 16 \<le> p)
     \<and> (wf_tensor x \<and> H mod 16 = 0 \<and> W mod 16 = 0 \<longrightarrow> y = x)"
proof (rule check_image_size_spec [OF assms(2) padder_size_16_pos [OF assms(1)]])
  fix y
  assume ret: "check_image_size self x = Some y" and wf: "wf_tensor y"
    and sh0: "shape y = [B, C, H + (padder_size self - H mod padder_size self) mod padder_size self,
                  W + (padder_size self - W mod padder_size self) mod padder_size self]"
    and el: "\<And>i j k l. i < B \<Longrightarrow> j < C
            \<Longrightarrow> k < H + (padder_size self - H mod padder_size self) mod padder_size self
            \<Longrightarrow> l < W + (padder_size self - W mod padder_size self) mod padder_size self
            \<Longrightarrow> get y [i, j, k, l] = (if k < H \<and> l < W then get x [i, j, k, l] else 0)"
  have sh: "shape y = [B, C, H + (16 - H mod 16) mod 16, W + (16 - W mod 16) mod 16]"
    using sh0 by (simp only: assms(1))
  have keep: "get y [b, c, h, w] = get x [b, c, h, w]" if "b < B" "c < C" "h < H" "w < W" for b c h w
  proof -
    have "get y [b, c, h, w] = (if h < H \<and> w < W then get x [b, c, h, w] else 0)"
      using that by (intro el) simp_all
    then show ?thesis using that by simp
  qed
  have same: "y = x" if "wf_tensor x" "H mod 16 = 0" "W mod 16 = 0"
  proof (rule tensor_eqI)
    show "wf_tensor y" by (rule wf)
    show "wf_tensor x" by (rule that(1))
    show "shape y = shape x" using that assms(2) sh by simp
    fix idx assume "valid_index (shape y) idx"
    then have v: "valid_index [B, C, H, W] idx" using that sh by simp
    then obtain b c h w where idx: "idx = [b, c, h, w]" "b < B" "c < C" "h < H" "w < W"
      by (auto simp: valid_index4)
    show "get y idx = get x idx" using keep [OF idx(2-5)] idx(1) by simp
  qed
  have mh: "\<forall>p. (H + p) mod 16 = 0 \<longrightarrow> (16 - H mod 16) mod 16 \<le> p"
    by (simp add: pad_amount_minimal)
  have mw: "\<forall>p. (W + p) mod 16 = 0 \<longrightarrow> (16 - W mod 16) mod 16 \<le> p"
    by (simp add: pad_amount_minimal)
  have k: "\<forall>b c h w. b < B \<and> c < C \<and> h < H \<and> w < W \<longrightarrow> get y [b, c, h, w] = get x [b, c, h, w]"
    using keep by blast
  have e: "wf_tensor x \<and> H mod 16 = 0 \<and> W mod 16 = 0 \<longrightarrow> y = x"
    by (auto intro: same)
  show ?thesis
    by (rule exI [of _ y]) (intro conjI ret sh k mh mw e)
qed

theorem check_image_size_minimal_pad_witness:
  "padder_size \<lparr>padder_size = 16\<rparr> = 16 \<and> shape (Tensor [1, 1, 1, 2] [3, 4]) = [1, 1, 1, 2]
   \<and> (\<exists>y. check_image_size \<lparr>padder_size = 16\<rparr> (Tensor [1, 1, 1, 2] [3, 4]) = Some y
     \<and> shape y = [1, 1, 1 + (16 - 1 mod 16) mod 16, 2 + (16 - 2 mod 16) mod 16]
     \<and> get y [0, 0, 0, 1] = get (Tensor [1, 1, 1, 2] [3, 4]) [0, 0, 0, 1])"
proof -
  have p: "padder_size \<lparr>padder_size = 16\<rparr> = 16" by simp
  have s: "shape (Tensor [1, 1, 1, 2] [3, 4]) = [1, 1, 1, 2]" by simp
  from check_image_size_minimal_pad [OF p s]
  obtain y where y: "check_image_size \<lparr>padder_size = 16\<rparr> (Tensor [1, 1, 1, 2] [3, 4]) = Some y"
    and sh: "shape y = [1, 1, 1 + (16 - 1 mod 16) mod 16, 2 + (16 - 2 mod 16) mod 16]"
    and k: "\<forall>b c h w. b < 1 \<and> c < 1 \<and> h < 1 \<and> w < 2 \<longrightarrow>
         get y [b, c, h, w] = get (Tensor [1, 1, 1, 2] [3, 4]) [b, c, h, w]"
    by (elim exE conjE)
  have g: "get y [0, 0, 0, 1] = get (Tensor [1, 1, 1, 2] [3, 4]) [0, 0, 0, 1]"
    using k by simp
  show ?thesis
    by (intro conjI p s exI [of _ y] y sh g)
qed

text \<open>C2 (as the code has it): with the padder size 16 of the network, \<open>check_image_size\<close>
  returns a tensor of height \<open>H + (16 - H mod 16) mod 16\<close> and width
  \<open>W + (16 - W mod 16) mod 16\<close> in which every entry of the rows added at the bottom and of
  the columns added on the right is the constant 0, whatever the input holds.\<close>

theorem check_image_size_pads_zero:
  assumes "padder_size self = 16" and "shape x = [B, C, H, W]"
  shows "\<exists>y. check_image_size self x = Some y
     \<and> shape y = [B, C, H + (16 - H mod 16) mod 16, W + (16 - W mod 16) mod 16]
     \<and> (\<forall>b c h w. b < B \<and> c < C \<and> h < H + (16 - H mod 16) mod 16
            \<and> w < W + (16 - W mod 16) mod 16 \<and> (H \<le> h \<or> W \<le> w)
          \<longrightarrow> get y [b, c, h, w] = 0)"
proof (rule check_image_size_spec [OF assms(2) padder_size_16_pos [OF assms(1)]])
  let ?H = "H + (16 - H mod 16) mod 16"
  let ?W = "W + (16 - W mod 16) mod 16"
  fix y
  assume ret: "check_image_size self x = Some y"
    and sh0: "shape y = [B, C, H + (padder_size self - H mod padder_size self) mod padder_size self,
                  W + (padder_size self - W mod padder_size self) mod padder_size self]"
    and el0: "\<And>i j k l. i < B \<Longrightarrow> j < C
            \<Longrightarrow> k < H + (padder_size self - H mod padder_size self) mod padder_size self
            \<Longrightarrow> l < W + (padder_size self - W mod padder_size self) mod padder_size self
            \<Longrightarrow> get y [i, j, k, l] = (if k < H \<and> l < W then get x [i, j, k, l] else 0)"
  have sh: "shape y = [B, C, ?H, ?W]"
    using sh0 by (simp only: assms(1))
  have el: "get y [i, j, k, l] = (if k < H \<and> l < W then get x [i, j, k, l] else 0)"
    if "i < B" "j < C" "k < ?H" "l < ?W" for i j k l
    using el0 [of i j k l] that by (simp only: assms(1))
  have z: "get y [b, c, h, w] = 0"
    if "b < B" "c < C" "h < ?H" "w < ?W" and o: "H \<le> h \<or> W \<le> w" for b c h w
  proof -
    have "get y [b, c, h, w] = (if h < H \<and> w < W then get x [b, c, h, w] else 0)"
      by (rule el [OF that(1-4)])
    moreover have "\<not> (h < H \<and> w < W)" using o by auto
    ultimately show ?thesis by simp
  qed
  have "\<forall>b c h w. b < B \<and> c < C \<and> h < ?H \<and> w < ?W \<and> (H \<le> h \<or> W \<le> w)
          \<longrightarrow> get y [b, c, h, w] = 0"
    using z by blast
  then show ?thesis using ret sh by (intro exI [of _ y] conjI)
qed

theorem check_image_size_pads_zero_witness:
  "padder_size \<lparr>padder_size = 16\<rparr> = 16
   \<and> shape (Tensor [1, 1, 2, 2] [1, 2, 3, 4]) = [1, 1, 2, 2]
   \<and> (\<exists>y. check_image_size \<lparr>padder_size = 16\<rparr> (Tensor [1, 1, 2, 2] [1, 2, 3, 4]) = Some y
     \<and> shape y = [1, 1, 16, 16]
     \<and> get y [0, 0, 2, 0] = 0 \<and> get y [0, 0, 0, 2] = 0 \<and> get y [0, 0, 15, 15] = 0)"
proof -
  let ?x = "Tensor [1, 1, 2, 2] [1, 2, 3, 4]"
  have p: "padder_size \<lparr>padder_size = 16\<rparr> = 16" by simp
  have s: "shape ?x = [1, 1, 2, 2]" by simp
  from check_image_size_pads_zero [OF p s]
  obtain y where y: "check_image_size \<lparr>padder_size = 16\<rparr> ?x = Some y"
    and sh: "shape y = [1, 1, 2 + (16 - 2 mod 16) mod 16, 2 + (16 - 2 mod 16) mod 16]"
    and z: "\<forall>b c h w. b < 1 \<and> c < 1 \<and> h < 2 + (16 - 2 mod 16) mod 16
            \<and> w < 2 + (16 - 2 mod 16) mod 16 \<and> (2 \<le> h \<or> 2 \<le> w)
          \<longrightarrow> get y [b, c, h, w] = 0"
    by (elim exE conjE)
  have sh': "shape y = [1, 1, 16, 16]" using sh by simp
  have g1: "get y [0, 0, 2, 0] = 0" using z [rule_format, of 0 0 2 0] by simp
  have g2: "get y [0, 0, 0, 2] = 0" using z [rule_format, of 0 0 0 2] by simp
  have g3: "get y [0, 0, 15, 15] = 0" using z [rule_format, of 0 0 15 15] by simp
  show ?thesis
    by (intro conjI p s exI [of _ y] y sh' g1 g2 g3)
qed

text \<open>The claim of reflection padding fails on a one-pixel image holding 7: the entry below
  it in the padded tensor is 0, which is no entry of the input.\<close>

theorem check_image_size_reflection_counterexample:
  "\<exists>y. check_image_size \<lparr>padder_size = 16\<rparr> (Tensor [1, 1, 1, 1] [7]) = Some y
     \<and> shape y = [1, 1, 16, 16]
     \<and> get y [0, 0, 1, 0] = 0 \<and> get y [0, 0, 1, 0] \<notin> set (data (Tensor [1, 1, 1, 1] [7]))"
proof -
  have s: "shape (Tensor [1, 1, 1, 1] [7]) = [1, 1, 1, 1]" by simp
  have p: "0 < padder_size \<lparr>padder_size = 16\<rparr>" by simp
  show ?thesis
  proof (rule check_image_size_spec [OF s p])
    let ?n = "1 + (padder_size \<lparr>padder_size = 16\<rparr> - 1 mod padder_size \<lparr>padder_size = 16\<rparr>)
                  mod padder_size \<lparr>padder_size = 16\<rparr>"
    fix y
    assume y: "check_image_size \<lparr>padder_size = 16\<rparr> (Tensor [1, 1, 1, 1] [7]) = Some y"
      and "wf_tensor y"
      and sh: "shape y = [1, 1, ?n, ?n]"
      and el: "\<And>i j k l. i < 1 \<Longrightarrow> j < 1 \<Longrightarrow> k < ?n \<Longrightarrow> l < ?n
            \<Longrightarrow> get y [i, j, k, l]
              = (if k < 1 \<and> l < 1 then get (Tensor [1, 1, 1, 1] [7]) [i, j, k, l] else 0)"
    have n: "?n = 16" by simp
    have "get y [0, 0, 1, 0]
        = (if (1::nat) < 1 \<and> (0::nat) < 1 then get (Tensor [1, 1, 1, 1] [7]) [0, 0, 1, 0] else 0)"
      by (rule el) simp_all
    then have g: "get y [0, 0, 1, 0] = 0" by simp
    have sh': "shape y = [1, 1, 16, 16]" using sh by (simp only: n)
    have m: "get y [0, 0, 1, 0] \<notin> set (data (Tensor [1, 1, 1, 1] [7]))"
      unfolding g by simp
    show ?thesis by (intro exI [of _ y] conjI y sh' g m)
  qed
qed

section \<open>Elementwise operations and slices\<close>

lemma broadcast_shapes_same: "broadcast_shapes s s = Some s"
proof -
  have a: "list_all2 (\<lambda>x y. x = y \<or> x = 1 \<or> y = 1) s s"
    by (rule list_all2_refl) simp
  have b: "map2 (\<lambda>x y. if x = 1 then y else x) s s = s"
    by (induction s) simp_all
  show ?thesis
    unfolding broadcast_shapes_def Let_def using a b by simp
qed

lemma expand_index_valid:
  assumes "valid_index s idx"
  shows "expand_index s idx = idx"
proof -
  have "list_all2 (<) idx s" using assms by (simp add: valid_index_def)
  then have "map2 (\<lambda>d i. if d = 1 then 0 else i) s idx = idx"
    by (induction rule: list_all2_induct) auto
  moreover have "length idx = length s" using assms by (rule valid_index_length)
  ultimately show ?thesis by (simp add: expand_index_def)
qed

lemma binop_same_shape:
  assumes "shape a = shape b"
  obtains y where "binop f a b = Some y" and "wf_tensor y" and "shape y = shape a"
    and "\<And>idx. valid_index (shape a) idx \<Longrightarrow> get y idx = f (get a idx) (get b idx)"
proof
  let ?g = "\<lambda>idx. f (get a (expand_index (shape a) idx)) (get b (expand_index (shape b) idx))"
  let ?y = "tabulate (shape a) ?g"
  show "binop f a b = Some ?y"
    unfolding binop_def assms [symmetric] broadcast_shapes_same by simp
  show "wf_tensor ?y" by (rule wf_tabulate)
  show "shape ?y = shape a" by (rule shape_tabulate)
  fix idx assume v: "valid_index (shape a) idx"
  have "get ?y idx = ?g idx" using v by (rule get_tabulate)
  also have "\<dots> = f (get a idx) (get b idx)"
    using v by (simp add: expand_index_valid assms [symmetric])
  finally show "get ?y idx = f (get a idx) (get b idx)" .
qed

lemma shape_narrow [simp]: "shape (narrow t d start len) = (shape t)[d := len]"
  by (simp add: narrow_def)

lemma get_narrow:
  "valid_index ((shape t)[d := len]) idx \<Longrightarrow>
     get (narrow t d start len) idx = get t (idx[d := start + idx ! d])"
  unfolding narrow_def by (rule get_tabulate)

lemma chunk_even:
  assumes "shape x = [B, 2 * k, H, W]"
  shows "chunk x 2 1 = Some [narrow x 1 0 k, narrow x 1 k k]"
proof (cases "k = 0")
  case True
  have "replicate 2 (narrow x 1 0 0) = [narrow x 1 0 0, narrow x 1 0 0]"
    by (simp add: numeral_2_eq_2)
  then show ?thesis
    unfolding chunk_def assms Let_def using True by simp
next
  case False
  have ss: "(2 * k + 2 - 1) div 2 = k" by simp
  have "(2 * k + k - 1) div k = 2"
    by (rule div_nat_eqI) (use False in simp_all)
  then have ns: "max ((2 * k + k - 1) div k) 1 = 2" by simp
  have up: "[0..<2] = [0, Suc 0]" by (simp add: upt_rec)
  have l: "length (shape x) \<le> 1 \<longleftrightarrow> False" "shape x ! 1 = 2 * k"
    by (simp_all add: assms)
  show ?thesis
    unfolding chunk_def Let_def l ss ns up using False by simp
qed

section \<open>SimpleGate: split the channels and multiply\<close>

lemma SimpleGate_forward_spec:
  assumes "shape x = [B, 2 * k, H, W]"
  obtains y where "SimpleGate_forward x = Some y" and "wf_tensor y" and "shape y = [B, k, H, W]"
    and "\<And>b c h w. b < B \<Longrightarrow> c < k \<Longrightarrow> h < H \<Longrightarrow> w < W \<Longrightarrow>
           get y [b, c, h, w] = get x [b, c, h, w] * get x [b, k + c, h, w]"
proof -
  let ?x1 = "narrow x 1 0 k" and ?x2 = "narrow x 1 k k"
  have sg: "SimpleGate_forward x = mul ?x1 ?x2"
    unfolding SimpleGate_forward_def chunk_even [OF assms] by simp
  have s1: "shape ?x1 = [B, k, H, W]" and s2: "shape ?x2 = [B, k, H, W]"
    by (simp_all add: assms)
  have same: "shape ?x1 = shape ?x2" by (simp only: s1 s2)
  show ?thesis
  proof (rule binop_same_shape [OF same, of "(*)"])
    fix y
    assume y: "binop (*) ?x1 ?x2 = Some y" and wf: "wf_tensor y"
      and sh: "shape y = shape ?x1"
      and g: "\<And>idx. valid_index (shape ?x1) idx \<Longrightarrow> get y idx = get ?x1 idx * get ?x2 idx"
    have a: "SimpleGate_forward x = Some y" using sg y by (simp add: mul_def)
    have b: "shape y = [B, k, H, W]" using sh s1 by simp
    have c: "get y [b, c, h, w] = get x [b, c, h, w] * get x [b, k + c, h, w]"
      if "b < B" "c < k" "h < H" "w < W" for b c h w
    proof -
      have v: "valid_index [B, k, H, W] [b, c, h, w]"
        using that by (simp add: valid_index4)
      have v1: "valid_index ((shape x)[1 := k]) [b, c, h, w]"
        using v by (simp add: assms)
      have "get y [b, c, h, w] = get ?x1 [b, c, h, w] * get ?x2 [b, c, h, w]"
        using v g by (simp only: s1)
      also have "get ?x1 [b, c, h, w] = get x [b, c, h, w]"
        using get_narrow [OF v1, of 0] by simp
      also have "get ?x2 [b, c, h, w] = get x [b, k + c, h, w]"
        using get_narrow [OF v1, of k] by simp
      finally show ?thesis .
    qed
    show ?thesis by (rule that [OF a wf b c])
  qed
qed

text \<open>C6: on an input with an even number \<open>2 * k\<close> of channels, \<open>SimpleGate.forward\<close> returns
  a tensor with \<open>k\<close> channels whose entry at \<open>[b, c, h, w]\<close> is the product of the input's
  entries at \<open>[b, c, h, w]\<close> and \<open>[b, k + c, h, w]\<close>: the first half of the channel axis times
  the second half.\<close>

theorem SimpleGate_forward_product:
  assumes "shape x = [B, 2 * k, H, W]"
  shows "\<exists>y. SimpleGate_forward x = Some y \<and> shape y = [B, k, H, W] \<and>
     (\<forall>b c h w. b < B \<and> c < k \<and> h < H \<and> w < W \<longrightarrow>
        get y [b, c, h, w] = get x [b, c, h, w] * get x [b, k + c, h, w])"
proof (rule SimpleGate_forward_spec [OF assms])
  fix y
  assume "SimpleGate_forward x = Some y" and "shape y = [B, k, H, W]"
    and "\<And>b c h w. b < B \<Longrightarrow> c < k \<Longrightarrow> h < H \<Longrightarrow> w < W \<Longrightarrow>
           get y [b, c, h, w] = get x [b, c, h, w] * get x [b, k + c, h, w]"
  then show ?thesis by (intro exI [of _ y]) simp
qed

theorem SimpleGate_forward_product_witness:
  "shape (Tensor [1, 4, 1, 1] [2, 3, 5, 7]) = [1, 2 * 2, 1, 1] \<and>
   (\<exists>y. SimpleGate_forward (Tensor [1, 4, 1, 1] [2, 3, 5, 7]) = Some y \<and> shape y = [1, 2, 1, 1]
     \<and> get y [0, 0, 0, 0] = 10 \<and> get y [0, 1, 0, 0] = 21)"
proof -
  let ?x = "Tensor [1, 4, 1, 1] [2, 3, 5, 7]"
  have s: "shape ?x = [1, 2 * 2, 1, 1]" by simp
  from SimpleGate_forward_product [OF s]
  obtain y where y: "SimpleGate_forward ?x = Some y" and sh: "shape y = [1, 2, 1, 1]"
    and k: "\<forall>b c h w. b < 1 \<and> c < 2 \<and> h < 1 \<and> w < 1 \<longrightarrow>
         get y [b, c, h, w] = get ?x [b, c, h, w] * get ?x [b, 2 + c, h, w]"
    by (elim exE conjE)
  have g0: "get y [0, 0, 0, 0] = 10"
    using k [rule_format, of 0 0 0 0] by (simp add: get_def)
  have g1: "get y [0, 1, 0, 0] = 21"
    using k [rule_format, of 0 1 0 0] by (simp add: get_def)
  show ?thesis
    by (intro conjI s exI [of _ y] y sh g0 g1)
qed

section \<open>CustomPixelShuffle: the pixel-shuffle rearrangement\<close>

lemma sort_perm: "sort [0, 1, 4, 2, 5, 3::nat] = [0..<6]"
  by (simp add: upt_rec)

lemma upt6: "[0..<6] = [0, 1, 2, 3, 4, 5::nat]"
  by (simp add: upt_rec)

lemma permute_index:
  "map (\<lambda>k. idx ! index_of [0, 1, 4, 2, 5, 3] k) [0, 1, 2, 3, 4, 5]
     = [idx ! 0, idx ! 1, idx ! 3, idx ! 5, idx ! 2, idx ! 4]"
  by (simp add: eval_nat_numeral)

lemma CustomPixelShuffle_forward_eq:
  assumes "shape x = [B, 4 * Q, H, W]" and "upscale_factor self = 2"
  shows "CustomPixelShuffle_forward self x =
     Some (Tensor [B, Q, H * 2, W * 2]
       (map (\<lambda>idx. get (Tensor [B, Q, 2, 2, H, W] (data x))
                      [idx ! 0, idx ! 1, idx ! 3, idx ! 5, idx ! 2, idx ! 4])
            (indices [B, Q, H, 2, W, 2])))"
proof -
  let ?t1 = "Tensor [B, Q, 2, 2, H, W] (data x)"
  let ?f = "\<lambda>idx. get ?t1 [idx ! 0, idx ! 1, idx ! 3, idx ! 5, idx ! 2, idx ! 4]"
  have r1: "reshape x [B, 4 * Q div 2 ^ 2, 2, 2, H, W] = Some ?t1"
    by (simp add: reshape_def numel_def assms)
  have len: "length (shape ?t1) = 6" by simp
  have shp: "map (\<lambda>d. shape ?t1 ! d) [0, 1, 4, 2, 5, 3] = [B, Q, H, 2, W, 2]" by simp
  have l6: "length [0, 1, 4, 2, 5, 3::nat] = 6" by simp
  have p: "permute ?t1 [0, 1, 4, 2, 5, 3] = Some (tabulate [B, Q, H, 2, W, 2] ?f)"
    unfolding permute_def len shp l6 sort_perm upt6 permute_index by simp
  have r2: "reshape (tabulate [B, Q, H, 2, W, 2] ?f) [B, 4 * Q div 2 ^ 2, H * 2, W * 2]
     = Some (Tensor [B, Q, H * 2, W * 2] (map ?f (indices [B, Q, H, 2, W, 2])))"
    by (simp add: reshape_def numel_def tabulate_def del: indices.simps)
  have n: "((2::nat) = 0) = False" by simp
  show ?thesis
    unfolding CustomPixelShuffle_forward_def assms(1) list.case Let_def assms(2)
    by (simp only: n if_False r1 p r2 bind.bind_lunit)
qed

lemma valid_index6:
  "valid_index [a, b, c, d, e, f] [i, j, k, l, m, n]
     \<longleftrightarrow> i < a \<and> j < b \<and> k < c \<and> l < d \<and> m < e \<and> n < f"
  by (simp add: valid_index_def)

lemma get_Tensor_map_indices:
  assumes "valid_index s' idx'" and "flat_index s idx = flat_index s' idx'"
  shows "get (Tensor s (map f (indices s'))) idx = f idx'"
proof -
  have "get (Tensor s (map f (indices s'))) idx = map f (indices s') ! flat_index s' idx'"
    by (simp add: get_def assms(2))
  also have "\<dots> = f (indices s' ! flat_index s' idx')"
    using flat_index_less [OF assms(1)] by (simp add: length_indices)
  also have "\<dots> = f idx'" by (simp only: indices_nth [OF assms(1)])
  finally show ?thesis .
qed

lemma CustomPixelShuffle_forward_spec:
  assumes "shape x = [B, 4 * Q, H, W]" and "upscale_factor self = 2"
  obtains y where "CustomPixelShuffle_forward self x = Some y" and "wf_tensor y"
    and "shape y = [B, Q, 2 * H, 2 * W]"
    and "\<And>n q i j di dj. n < B \<Longrightarrow> q < Q \<Longrightarrow> i < H \<Longrightarrow> j < W \<Longrightarrow> di < 2 \<Longrightarrow> dj < 2 \<Longrightarrow>
           get y [n, q, 2 * i + di, 2 * j + dj] = get x [n, 4 * q + 2 * di + dj, i, j]"
proof
  let ?t1 = "Tensor [B, Q, 2, 2, H, W] (data x)"
  let ?f = "\<lambda>idx. get ?t1 [idx ! 0, idx ! 1, idx ! 3, idx ! 5, idx ! 2, idx ! 4]"
  let ?y = "Tensor [B, Q, H * 2, W * 2] (map ?f (indices [B, Q, H, 2, W, 2]))"
  show "CustomPixelShuffle_forward self x = Some ?y"
    by (rule CustomPixelShuffle_forward_eq [OF assms])
  show "wf_tensor ?y"
    by (simp add: wf_tensor_def length_indices del: indices.simps)
  show "shape ?y = [B, Q, 2 * H, 2 * W]" by (simp add: mult.commute)
  fix n q i j di dj :: nat
  assume b: "n < B" "q < Q" "i < H" "j < W" "di < 2" "dj < 2"
  have v: "valid_index [B, Q, H, 2, W, 2] [n, q, i, di, j, dj]"
    using b by (simp only: valid_index6)
  have fl: "flat_index [B, Q, H * 2, W * 2] [n, q, 2 * i + di, 2 * j + dj]
      = flat_index [B, Q, H, 2, W, 2] [n, q, i, di, j, dj]"
    by (simp add: algebra_simps)
  have "get ?y [n, q, 2 * i + di, 2 * j + dj] = ?f [n, q, i, di, j, dj]"
    using v fl by (rule get_Tensor_map_indices)
  also have "\<dots> = get ?t1 [n, q, di, dj, i, j]" by simp
  also have "\<dots> = get x [n, 4 * q + 2 * di + dj, i, j]"
    by (simp add: get_def assms(1) algebra_simps)
  finally show "get ?y [n, q, 2 * i + di, 2 * j + dj] = get x [n, 4 * q + 2 * di + dj, i, j]" .
qed

text \<open>C5: for an input of shape \<open>(b, c, h, w)\<close> with \<open>c\<close> divisible by 4,
  \<open>CustomPixelShuffle\<close> with upscale factor 2 returns a tensor of shape
  \<open>(b, c / 4, 2 h, 2 w)\<close> whose entry at \<open>[n, q, 2 i + di, 2 j + dj]\<close> is the input's entry
  at \<open>[n, 4 q + 2 di + dj, i, j]\<close> for \<open>di, dj < 2\<close>; this tensor is the standard pixel shuffle
  of the input.\<close>

theorem CustomPixelShuffle_forward_pixel_shuffle:
  assumes "upscale_factor self = 2" and "shape x = [b, c, h, w]" and "4 dvd c"
  shows "\<exists>y. CustomPixelShuffle_forward self x = Some y
     \<and> shape y = [b, c div 4, 2 * h, 2 * w]
     \<and> (\<forall>n q i j di dj. n < b \<and> q < c div 4 \<and> i < h \<and> j < w \<and> di < 2 \<and> dj < 2 \<longrightarrow>
          get y [n, q, 2 * i + di, 2 * j + dj] = get x [n, 4 * q + 2 * di + dj, i, j])
     \<and> y = PixelShuffle_reference 2 x"
proof -
  from assms(3) obtain Q where c: "c = 4 * Q" by (elim dvdE)
  have sx: "shape x = [b, 4 * Q, h, w]" using assms(2) c by simp
  have q: "c div 4 = Q" using c by simp
  show ?thesis
  proof (rule CustomPixelShuffle_forward_spec [OF sx assms(1)])
    fix y
    assume ret: "CustomPixelShuffle_forward self x = Some y" and wf: "wf_tensor y"
      and sh: "shape y = [b, Q, 2 * h, 2 * w]"
      and el: "\<And>n q i j di dj. n < b \<Longrightarrow> q < Q \<Longrightarrow> i < h \<Longrightarrow> j < w \<Longrightarrow> di < 2 \<Longrightarrow> dj < 2 \<Longrightarrow>
           get y [n, q, 2 * i + di, 2 * j + dj] = get x [n, 4 * q + 2 * di + dj, i, j]"
    let ?g = "\<lambda>idx. get x [idx ! 0, idx ! 1 * 2 ^ 2 + (idx ! 2 mod 2) * 2 + idx ! 3 mod 2,
                      idx ! 2 div 2, idx ! 3 div 2]"
    have ref: "PixelShuffle_reference 2 x = tabulate [b, Q, 2 * h, 2 * w] ?g"
      unfolding PixelShuffle_reference_def sx by (simp add: mult.commute)
    have eq: "y = PixelShuffle_reference 2 x"
    proof (rule tensor_eqI)
      show "wf_tensor y" by (rule wf)
      show "wf_tensor (PixelShuffle_reference 2 x)" unfolding ref by (rule wf_tabulate)
      show "shape y = shape (PixelShuffle_reference 2 x)" unfolding ref sh by simp
      fix idx assume "valid_index (shape y) idx"
      then have v: "valid_index [b, Q, 2 * h, 2 * w] idx" by (simp only: sh)
      then obtain n q Y X where idx: "idx = [n, q, Y, X]" "n < b" "q < Q" "Y < 2 * h" "X < 2 * w"
        by (auto simp: valid_index4)
      have Y: "2 * (Y div 2) + Y mod 2 = Y" and X: "2 * (X div 2) + X mod 2 = X" by simp_all
      have "get y [n, q, 2 * (Y div 2) + Y mod 2, 2 * (X div 2) + X mod 2]
           = get x [n, 4 * q + 2 * (Y mod 2) + X mod 2, Y div 2, X div 2]"
        using idx(2-5) by (intro el) simp_all
      then have a: "get y idx = get x [n, 4 * q + 2 * (Y mod 2) + X mod 2, Y div 2, X div 2]"
        by (simp only: Y X idx(1))
      have "get (PixelShuffle_reference 2 x) idx = ?g idx"
        unfolding ref using v by (rule get_tabulate)
      also have "\<dots> = get x [n, 4 * q + 2 * (Y mod 2) + X mod 2, Y div 2, X div 2]"
        by (simp add: idx(1) mult.commute)
      finally show "get y idx = get (PixelShuffle_reference 2 x) idx" using a by simp
    qed
    have sh': "shape y = [b, c div 4, 2 * h, 2 * w]" using sh q by simp
    have al: "\<forall>n q i j di dj. n < b \<and> q < c div 4 \<and> i < h \<and> j < w \<and> di < 2 \<and> dj < 2 \<longrightarrow>
          get y [n, q, 2 * i + di, 2 * j + dj] = get x [n, 4 * q + 2 * di + dj, i, j]"
      unfolding q using el by blast
    show ?thesis by (intro exI [of _ y] conjI ret sh' al eq)
  qed
qed

theorem CustomPixelShuffle_forward_pixel_shuffle_witness:
  "upscale_factor \<lparr>upscale_factor = 2\<rparr> = 2
   \<and> shape (Tensor [1, 4, 1, 2] [1, 2, 3, 4, 5, 6, 7, 8]) = [1, 4, 1, 2] \<and> (4::nat) dvd 4
   \<and> (\<exists>y. CustomPixelShuffle_forward \<lparr>upscale_factor = 2\<rparr>
             (Tensor [1, 4, 1, 2] [1, 2, 3, 4, 5, 6, 7, 8]) = Some y
        \<and> shape y = [1, 1, 2, 4]
        \<and> get y [0, 0, 0, 1] = 3 \<and> get y [0, 0, 0, 2] = 2 \<and> get y [0, 0, 1, 3] = 8
        \<and> y = PixelShuffle_reference 2 (Tensor [1, 4, 1, 2] [1, 2, 3, 4, 5, 6, 7, 8]))"
proof -
  let ?x = "Tensor [1, 4, 1, 2] [1, 2, 3, 4, 5, 6, 7, 8]"
  have u: "upscale_factor \<lparr>upscale_factor = 2\<rparr> = 2" by simp
  have s: "shape ?x = [1, 4, 1, 2]" by simp
  have d: "(4::nat) dvd 4" by simp
  from CustomPixelShuffle_forward_pixel_shuffle [OF u s d]
  obtain y where y: "CustomPixelShuffle_forward \<lparr>upscale_factor = 2\<rparr> ?x = Some y"
    and sh: "shape y = [1, 4 div 4, 2 * 1, 2 * 2]"
    and el: "\<forall>n q i j di dj. n < 1 \<and> q < 4 div 4 \<and> i < 1 \<and> j < 2 \<and> di < 2 \<and> dj < 2 \<longrightarrow>
          get y [n, q, 2 * i + di, 2 * j + dj] = get ?x [n, 4 * q + 2 * di + dj, i, j]"
    and r: "y = PixelShuffle_reference 2 ?x"
    by (elim exE conjE)
  have sh': "shape y = [1, 1, 2, 4]" using sh by simp
  have g1: "get y [0, 0, 0, 1] = 3"
    using el [rule_format, of 0 0 0 0 0 1] by (simp add: get_def)
  have g2: "get y [0, 0, 0, 2] = 2"
    using el [rule_format, of 0 0 0 1 0 0] by (simp add: get_def)
  have g3: "get y [0, 0, 1, 3] = 8"
    using el [rule_format, of 0 0 0 1 1 1] by (simp add: get_def)
  show ?thesis
    by (intro conjI u s d exI [of _ y] y sh' g1 g2 g3 r)
qed

section \<open>LayerNorm2d: the forward formula\<close>

lemma shape_map_tensor [simp]: "shape (map_tensor f t) = shape t"
  by (simp add: map_tensor_def)

lemma wf_map_tensor [simp]: "wf_tensor (map_tensor f t)"
  by (simp add: map_tensor_def)

lemma get_map_tensor:
  "valid_index (shape t) idx \<Longrightarrow> get (map_tensor f t) idx = f (get t idx)"
  unfolding map_tensor_def by (rule get_tabulate)

lemma sum_list_upt_sum: "(\<Sum>i\<leftarrow>[0..<n]. f i) = (\<Sum>i<n. f i)" for f :: "nat \<Rightarrow> real"
  by (simp add: interv_sum_list_conv_sum_set_nat atLeast0LessThan)

lemma binop_broadcast:
  assumes "broadcast_shapes (shape a) (shape b) = Some s"
  obtains y where "binop f a b = Some y" and "wf_tensor y" and "shape y = s"
    and "\<And>idx. valid_index s idx \<Longrightarrow>
           get y idx = f (get a (expand_index (shape a) idx)) (get b (expand_index (shape b) idx))"
proof
  let ?g = "\<lambda>idx. f (get a (expand_index (shape a) idx)) (get b (expand_index (shape b) idx))"
  let ?y = "tabulate s ?g"
  show "binop f a b = Some ?y" unfolding binop_def assms by simp
  show "wf_tensor ?y" by (rule wf_tabulate)
  show "shape ?y = s" by (rule shape_tabulate)
  fix idx assume v: "valid_index s idx"
  show "get ?y idx = ?g idx" using v by (rule get_tabulate)
qed

lemma broadcast_shapes_channel_mean:
  "broadcast_shapes [N, C, H, W] [N, 1, H, W] = Some [N, C, H, W]"
  by (simp add: broadcast_shapes_def)

lemma broadcast_shapes_channel_vector:
  "broadcast_shapes [1, C, 1, 1] [N, C, H, W] = Some [N, C, H, W]"
  by (simp add: broadcast_shapes_def)

lemma expand_index_channel_mean:
  "n < N \<Longrightarrow> h < H \<Longrightarrow> w < W \<Longrightarrow> expand_index [N, 1, H, W] [n, c, h, w] = [n, 0, h, w]"
  by (auto simp: expand_index_def)

lemma expand_index_channel_vector:
  "c < C \<Longrightarrow> expand_index [1, C, 1, 1] [n, c, h, w] = [0, c, 0, 0]"
  by (auto simp: expand_index_def)

lemma sum_dim_channel:
  assumes "shape t = [N, C, H, W]"
  obtains m where "sum_dim t 1 True = Some m" and "wf_tensor m" and "shape m = [N, 1, H, W]"
    and "\<And>n h w. n < N \<Longrightarrow> h < H \<Longrightarrow> w < W \<Longrightarrow>
           get m [n, 0, h, w] = (\<Sum>k<C. get t [n, k, h, w])"
proof
  let ?g = "\<lambda>idx. \<Sum>i\<leftarrow>[0..<C]. get t (idx[1 := i])"
  let ?m = "tabulate [N, 1, H, W] ?g"
  show "sum_dim t 1 True = Some ?m" by (simp add: sum_dim_def assms)
  show "wf_tensor ?m" by (rule wf_tabulate)
  show "shape ?m = [N, 1, H, W]" by (rule shape_tabulate)
  fix n h w assume b: "n < N" "h < H" "w < W"
  have "valid_index [N, 1, H, W] [n, 0, h, w]" using b by (simp add: valid_index4)
  then have "get ?m [n, 0, h, w] = ?g [n, 0, h, w]" by (rule get_tabulate)
  also have "\<dots> = (\<Sum>k<C. get t [n, k, h, w])" by (simp add: sum_list_upt_sum)
  finally show "get ?m [n, 0, h, w] = (\<Sum>k<C. get t [n, k, h, w])" .
qed

lemma mean_dim_channel:
  assumes "shape t = [N, C, H, W]"
  obtains m where "mean_dim t 1 True = Some m" and "wf_tensor m" and "shape m = [N, 1, H, W]"
    and "\<And>n h w. n < N \<Longrightarrow> h < H \<Longrightarrow> w < W \<Longrightarrow>
           get m [n, 0, h, w] = (\<Sum>k<C. get t [n, k, h, w]) / real C"
proof (rule sum_dim_channel [OF assms])
  fix s
  assume s: "sum_dim t 1 True = Some s" and sh: "shape s = [N, 1, H, W]"
    and g: "\<And>n h w. n < N \<Longrightarrow> h < H \<Longrightarrow> w < W \<Longrightarrow>
           get s [n, 0, h, w] = (\<Sum>k<C. get t [n, k, h, w])"
  let ?m = "map_tensor (\<lambda>v. v / real C) s"
  have a: "mean_dim t 1 True = Some ?m" unfolding mean_dim_def s assms by simp
  have b: "wf_tensor ?m" by (rule wf_map_tensor)
  have c: "shape ?m = [N, 1, H, W]" by (simp add: sh)
  have d: "get ?m [n, 0, h, w] = (\<Sum>k<C. get t [n, k, h, w]) / real C"
    if "n < N" "h < H" "w < W" for n h w
  proof -
    have "valid_index (shape s) [n, 0, h, w]" using that by (simp add: sh valid_index4)
    then have "get ?m [n, 0, h, w] = get s [n, 0, h, w] / real C" by (rule get_map_tensor)
    then show ?thesis using g [OF that] by simp
  qed
  show thesis by (rule that [OF a b c d])
qed

lemma view_channel_vector:
  assumes "shape v = [C]"
  shows "view v [1, C, 1, 1] = Some (Tensor [1, C, 1, 1] (data v))"
    and "get (Tensor [1, C, 1, 1] (data v)) [0, c, 0, 0] = get v [c]"
  by (simp_all add: view_def numel_def assms get_def)


lemma LayerNormFunction_forward_spec:
  assumes sx: "shape x = [N, C, H, W]" and sw: "shape weight = [C]" and sb: "shape bias = [C]"
  obtains y v out where
    "LayerNormFunction_forward x weight bias eps
       = Some (\<lparr>ctx_eps = eps, saved_variables = (y, v, weight)\<rparr>, out)"
    and "wf_tensor y" and "shape y = [N, C, H, W]"
    and "wf_tensor v" and "shape v = [N, 1, H, W]"
    and "wf_tensor out" and "shape out = [N, C, H, W]"
    and "\<And>n h w. n < N \<Longrightarrow> h < H \<Longrightarrow> w < W \<Longrightarrow> get v [n, 0, h, w] = channel_var x C n h w"
    and "\<And>n c h w. n < N \<Longrightarrow> c < C \<Longrightarrow> h < H \<Longrightarrow> w < W \<Longrightarrow>
           get y [n, c, h, w] = (get x [n, c, h, w] - channel_mean x C n h w)
                                  / sqrt (channel_var x C n h w + eps)"
    and "\<And>n c h w. n < N \<Longrightarrow> c < C \<Longrightarrow> h < H \<Longrightarrow> w < W \<Longrightarrow>
           get out [n, c, h, w] = get weight [c] * get y [n, c, h, w] + get bias [c]"
proof -
  obtain mu where mu: "mean_dim x 1 True = Some mu"
    and smu: "shape mu = [N, 1, H, W]"
    and gmu: "\<And>n h w. n < N \<Longrightarrow> h < H \<Longrightarrow> w < W \<Longrightarrow>
           get mu [n, 0, h, w] = (\<Sum>k<C. get x [n, k, h, w]) / real C"
    by (rule mean_dim_channel [OF sx]) (rule that)
  have bs: "broadcast_shapes (shape x) (shape mu) = Some [N, C, H, W]"
    by (simp only: sx smu broadcast_shapes_channel_mean)
  obtain d where d0: "binop (-) x mu = Some d" and sd: "shape d = [N, C, H, W]"
    and gd0: "\<And>idx. valid_index [N, C, H, W] idx \<Longrightarrow>
           get d idx = get x (expand_index (shape x) idx) - get mu (expand_index (shape mu) idx)"
    by (rule binop_broadcast [OF bs, of "(-)"]) (rule that)
  have d: "sub x mu = Some d" by (simp only: sub_def d0)
  have gd: "get d [n, c, h, w] = get x [n, c, h, w] - channel_mean x C n h w"
    if "n < N" "c < C" "h < H" "w < W" for n c h w
  proof -
    have v: "valid_index [N, C, H, W] [n, c, h, w]" using that by (simp add: valid_index4)
    have "get d [n, c, h, w] = get x [n, c, h, w] - get mu [n, 0, h, w]"
      using gd0 [OF v] that
      by (simp only: sx smu expand_index_valid [OF v] expand_index_channel_mean)
    then show ?thesis using gmu [OF that(1,3,4)] by (simp add: channel_mean_def)
  qed
  have sp: "shape (pow d 2) = [N, C, H, W]" by (simp add: pow_def sd)
  have gp: "get (pow d 2) [n, c, h, w] = (get x [n, c, h, w] - channel_mean x C n h w) ^ 2"
    if "n < N" "c < C" "h < H" "w < W" for n c h w
  proof -
    have v: "valid_index (shape d) [n, c, h, w]" using that by (simp add: sd valid_index4)
    show ?thesis unfolding pow_def get_map_tensor [OF v] gd [OF that] ..
  qed
  obtain var where var: "mean_dim (pow d 2) 1 True = Some var"
    and wvar: "wf_tensor var" and svar: "shape var = [N, 1, H, W]"
    and gvar0: "\<And>n h w. n < N \<Longrightarrow> h < H \<Longrightarrow> w < W \<Longrightarrow>
           get var [n, 0, h, w] = (\<Sum>k<C. get (pow d 2) [n, k, h, w]) / real C"
    by (rule mean_dim_channel [OF sp]) (rule that)
  have gvar: "get var [n, 0, h, w] = channel_var x C n h w"
    if "n < N" "h < H" "w < W" for n h w
  proof -
    have "(\<Sum>k<C. get (pow d 2) [n, k, h, w])
        = (\<Sum>k<C. (get x [n, k, h, w] - channel_mean x C n h w) ^ 2)"
      by (rule sum.cong) (simp_all add: gp that)
    then show ?thesis using gvar0 [OF that] by (simp add: channel_var_def)
  qed
  let ?s = "sqrt_t (add_scalar var eps)"
  have ss: "shape ?s = [N, 1, H, W]" by (simp add: sqrt_t_def add_scalar_def svar)
  have gs: "get ?s [n, 0, h, w] = sqrt (channel_var x C n h w + eps)"
    if "n < N" "h < H" "w < W" for n h w
  proof -
    have v: "valid_index (shape var) [n, 0, h, w]" using that by (simp add: svar valid_index4)
    have v': "valid_index (shape (map_tensor (\<lambda>v. v + eps) var)) [n, 0, h, w]"
      using v by simp
    show ?thesis
      unfolding sqrt_t_def add_scalar_def get_map_tensor [OF v'] get_map_tensor [OF v]
        gvar [OF that] ..
  qed
  have bs2: "broadcast_shapes (shape d) (shape ?s) = Some [N, C, H, W]"
    by (simp only: sd ss broadcast_shapes_channel_mean)
  obtain y where y0: "binop (/) d ?s = Some y" and wy: "wf_tensor y"
    and sy: "shape y = [N, C, H, W]"
    and gy0: "\<And>idx. valid_index [N, C, H, W] idx \<Longrightarrow>
           get y idx = get d (expand_index (shape d) idx) / get ?s (expand_index (shape ?s) idx)"
    by (rule binop_broadcast [OF bs2, of "(/)"]) (rule that)
  have y: "divide_t d ?s = Some y" by (simp only: divide_t_def y0)
  have gy: "get y [n, c, h, w] = (get x [n, c, h, w] - channel_mean x C n h w)
                                  / sqrt (channel_var x C n h w + eps)"
    if "n < N" "c < C" "h < H" "w < W" for n c h w
  proof -
    have v: "valid_index [N, C, H, W] [n, c, h, w]" using that by (simp add: valid_index4)
    have "get y [n, c, h, w] = get d [n, c, h, w] / get ?s [n, 0, h, w]"
      using gy0 [OF v] that
      by (simp only: sd ss expand_index_valid [OF v] expand_index_channel_mean)
    then show ?thesis by (simp only: gd [OF that] gs [OF that(1,3,4)])
  qed
  let ?w = "Tensor [1, C, 1, 1] (data weight)" and ?b = "Tensor [1, C, 1, 1] (data bias)"
  have vw: "view weight [1, C, 1, 1] = Some ?w" by (rule view_channel_vector(1) [OF sw])
  have vb: "view bias [1, C, 1, 1] = Some ?b" by (rule view_channel_vector(1) [OF sb])
  have bs3: "broadcast_shapes (shape ?w) (shape y) = Some [N, C, H, W]"
    by (simp only: tensor.sel sy broadcast_shapes_channel_vector)
  obtain wy where wyd0: "binop (*) ?w y = Some wy" and swy: "shape wy = [N, C, H, W]"
    and gwy0: "\<And>idx. valid_index [N, C, H, W] idx \<Longrightarrow>
           get wy idx = get ?w (expand_index (shape ?w) idx) * get y (expand_index (shape y) idx)"
    by (rule binop_broadcast [OF bs3, of "(*)"]) (rule that)
  have wyd: "mul ?w y = Some wy" by (simp only: mul_def wyd0)
  have bs4: "broadcast_shapes (shape wy) (shape ?b) = Some [N, C, H, W]"
    by (simp add: swy broadcast_shapes_def)
  obtain out where out0: "binop (+) wy ?b = Some out" and wout: "wf_tensor out"
    and sout: "shape out = [N, C, H, W]"
    and gout0: "\<And>idx. valid_index [N, C, H, W] idx \<Longrightarrow>
           get out idx = get wy (expand_index (shape wy) idx) + get ?b (expand_index (shape ?b) idx)"
    by (rule binop_broadcast [OF bs4, of "(+)"]) (rule that)
  have out: "add wy ?b = Some out" by (simp only: add_def out0)
  have gout: "get out [n, c, h, w] = get weight [c] * get y [n, c, h, w] + get bias [c]"
    if "n < N" "c < C" "h < H" "w < W" for n c h w
  proof -
    have v: "valid_index [N, C, H, W] [n, c, h, w]" using that by (simp add: valid_index4)
    have "get out [n, c, h, w] = get wy [n, c, h, w] + get ?b [0, c, 0, 0]"
      using gout0 [OF v] that(2)
      by (simp only: swy tensor.sel expand_index_valid [OF v] expand_index_channel_vector)
    moreover have "get wy [n, c, h, w] = get ?w [0, c, 0, 0] * get y [n, c, h, w]"
      using gwy0 [OF v] that(2)
      by (simp only: sy tensor.sel expand_index_valid [OF v] expand_index_channel_vector)
    ultimately show ?thesis
      by (simp only: view_channel_vector(2) [OF sw] view_channel_vector(2) [OF sb])
  qed
  have ret: "LayerNormFunction_forward x weight bias eps
       = Some (\<lparr>ctx_eps = eps, saved_variables = (y, var, weight)\<rparr>, out)"
    unfolding LayerNormFunction_forward_def sx list.case
    by (simp only: mu d var y vw wyd vb out bind.bind_lunit)
  show thesis
    by (rule that [OF ret wy sy wvar svar wout sout gvar gy gout])
qed


text \<open>C3: for an input \<open>x\<close> of shape \<open>(N, C, H, W)\<close>, weight and bias vectors of length \<open>C\<close>
  and any \<open>eps\<close>, \<open>LayerNormFunction.forward\<close> (and with it \<open>LayerNorm2d.forward\<close>) returns
  a tensor \<open>y\<close> of the same shape with
  \<open>y[n, c, h, w] = weight[c] * (x[n, c, h, w] - mu[n, h, w]) / sqrt (var[n, h, w] + eps) + bias[c]\<close>,
  where \<open>mu[n, h, w]\<close> is the mean and \<open>var[n, h, w]\<close> the biased variance of the entries
  \<open>x[n, \<cdot>, h, w]\<close> over the channel axis.\<close>

theorem LayerNormFunction_forward_formula:
  assumes "shape x = [N, C, H, W]" and "shape weight = [C]" and "shape bias = [C]"
  shows "\<exists>saved y. LayerNormFunction_forward x weight bias eps = Some (saved, y)
     \<and> LayerNorm2d_forward \<lparr>ln_weight = weight, ln_bias = bias, ln_eps = eps\<rparr> x = Some y
     \<and> shape y = [N, C, H, W]
     \<and> (\<forall>n c h w. n < N \<and> c < C \<and> h < H \<and> w < W \<longrightarrow>
          get y [n, c, h, w]
            = get weight [c] * (get x [n, c, h, w] - channel_mean x C n h w)
                / sqrt (channel_var x C n h w + eps) + get bias [c])"
proof -
  obtain y v out where
    ret: "LayerNormFunction_forward x weight bias eps
       = Some (\<lparr>ctx_eps = eps, saved_variables = (y, v, weight)\<rparr>, out)"
    and sout: "shape out = [N, C, H, W]"
    and gy: "\<And>n c h w. n < N \<Longrightarrow> c < C \<Longrightarrow> h < H \<Longrightarrow> w < W \<Longrightarrow>
           get y [n, c, h, w] = (get x [n, c, h, w] - channel_mean x C n h w)
                                  / sqrt (channel_var x C n h w + eps)"
    and gout: "\<And>n c h w. n < N \<Longrightarrow> c < C \<Longrightarrow> h < H \<Longrightarrow> w < W \<Longrightarrow>
           get out [n, c, h, w] = get weight [c] * get y [n, c, h, w] + get bias [c]"
    by (rule LayerNormFunction_forward_spec [OF assms, of eps]) (rule that)
  have l: "LayerNorm2d_forward \<lparr>ln_weight = weight, ln_bias = bias, ln_eps = eps\<rparr> x = Some out"
    by (simp add: LayerNorm2d_forward_def ret)
  have f: "get out [n, c, h, w]
            = get weight [c] * (get x [n, c, h, w] - channel_mean x C n h w)
                / sqrt (channel_var x C n h w + eps) + get bias [c]"
    if "n < N" "c < C" "h < H" "w < W" for n c h w
    using gout [OF that] gy [OF that] by simp
  have a: "\<forall>n c h w. n < N \<and> c < C \<and> h < H \<and> w < W \<longrightarrow>
          get out [n, c, h, w]
            = get weight [c] * (get x [n, c, h, w] - channel_mean x C n h w)
                / sqrt (channel_var x C n h w + eps) + get bias [c]"
    using f by blast
  show ?thesis
    by (intro exI [of _ "\<lparr>ctx_eps = eps, saved_variables = (y, v, weight)\<rparr>"] exI [of _ out]
          conjI ret l sout a)
qed

theorem LayerNormFunction_forward_formula_witness:
  "shape (Tensor [1, 2, 1, 1] [1, 3]) = [1, 2, 1, 1] \<and> shape (Tensor [2] [2, 5]) = [2]
   \<and> shape (Tensor [2] [10, 20]) = [2]
   \<and> (\<exists>saved y. LayerNormFunction_forward (Tensor [1, 2, 1, 1] [1, 3]) (Tensor [2] [2, 5])
                 (Tensor [2] [10, 20]) 3 = Some (saved, y)
        \<and> shape y = [1, 2, 1, 1] \<and> get y [0, 0, 0, 0] = 9 \<and> get y [0, 1, 0, 0] = 45 / 2)"
proof -
  let ?x = "Tensor [1, 2, 1, 1] [1, 3]" and ?w = "Tensor [2] [2, 5]" and ?b = "Tensor [2] [10, 20]"
  have s: "shape ?x = [1, 2, 1, 1]" and sw: "shape ?w = [2]" and sb: "shape ?b = [2]"
    by simp_all
  from LayerNormFunction_forward_formula [OF s sw sb, of 3]
  obtain saved y where y: "LayerNormFunction_forward ?x ?w ?b 3 = Some (saved, y)"
    and sh: "shape y = [1, 2, 1, 1]"
    and el: "\<forall>n c h w. n < 1 \<and> c < 2 \<and> h < 1 \<and> w < 1 \<longrightarrow>
          get y [n, c, h, w]
            = get ?w [c] * (get ?x [n, c, h, w] - channel_mean ?x 2 n h w)
                / sqrt (channel_var ?x 2 n h w + 3) + get ?b [c]"
    by (elim exE conjE)
  have m: "channel_mean ?x 2 0 0 0 = 2"
    by (simp add: channel_mean_def get_def numeral_2_eq_2)
  have v: "channel_var ?x 2 0 0 0 = 1"
    unfolding channel_var_def m by (simp add: get_def numeral_2_eq_2)
  have r: "sqrt (1 + 3) = 2" by simp
  have g0: "get y [0, 0, 0, 0] = 9"
    using el [rule_format, of 0 0 0 0] unfolding m v r by (simp add: get_def)
  have g1: "get y [0, 1, 0, 0] = 45 / 2"
    using el [rule_format, of 0 1 0 0] unfolding m v r by (simp add: get_def)
  show ?thesis
    by (intro conjI s sw sb exI [of _ saved] exI [of _ y] y sh g0 g1)
qed

section \<open>GlobalContextExtractor: the convolutions run in sequence\<close>

lemma GlobalContextExtractor_loop_chain:
  "GlobalContextExtractor_loop convs x acc = Some outs \<longleftrightarrow>
     (\<exists>new. outs = acc @ new \<and> length new = length convs \<and>
        (\<forall>i<length convs. \<exists>c.
           depthwise_separable_conv_forward (convs ! i) (if i = 0 then x else new ! (i - 1)) = Some c
           \<and> new ! i = gelu c))"
proof (induction convs arbitrary: x acc outs)
  case Nil
  show ?case by auto
next
  case (Cons conv convs)
  show ?case
  proof (cases "depthwise_separable_conv_forward conv x")
    case None
    have "\<not> (\<exists>new. outs = acc @ new \<and> length new = length (conv # convs) \<and>
        (\<forall>i<length (conv # convs). \<exists>c.
           depthwise_separable_conv_forward ((conv # convs) ! i)
             (if i = 0 then x else new ! (i - 1)) = Some c \<and> new ! i = gelu c))"
    proof
      assume "\<exists>new. outs = acc @ new \<and> length new = length (conv # convs) \<and>
        (\<forall>i<length (conv # convs). \<exists>c.
           depthwise_separable_conv_forward ((conv # convs) ! i)
             (if i = 0 then x else new ! (i - 1)) = Some c \<and> new ! i = gelu c)"
      then obtain new where a: "\<forall>i<length (conv # convs). \<exists>c.
           depthwise_separable_conv_forward ((conv # convs) ! i)
             (if i = 0 then x else new ! (i - 1)) = Some c \<and> new ! i = gelu c"
        by blast
      from a [rule_format, of 0] show False using None by simp
    qed
    then show ?thesis using None by simp
  next
    case (Some c)
    let ?P = "\<lambda>new. outs = acc @ new \<and> length new = length (conv # convs) \<and>
        (\<forall>i<length (conv # convs). \<exists>c.
           depthwise_separable_conv_forward ((conv # convs) ! i)
             (if i = 0 then x else new ! (i - 1)) = Some c \<and> new ! i = gelu c)"
    let ?Q = "\<lambda>new'. outs = (acc @ [gelu c]) @ new' \<and> length new' = length convs \<and>
        (\<forall>i<length convs. \<exists>c'.
           depthwise_separable_conv_forward (convs ! i)
             (if i = 0 then gelu c else new' ! (i - 1)) = Some c' \<and> new' ! i = gelu c')"
    have l: "GlobalContextExtractor_loop (conv # convs) x acc = Some outs \<longleftrightarrow> (\<exists>new'. ?Q new')"
      using Some Cons.IH [of "gelu c" "acc @ [gelu c]" outs] by simp
    have r: "(\<exists>new. ?P new) \<longleftrightarrow> (\<exists>new'. ?Q new')"
    proof
      assume "\<exists>new. ?P new"
      then obtain new where o: "outs = acc @ new" and n: "length new = length (conv # convs)"
        and a: "\<forall>i<length (conv # convs). \<exists>c.
           depthwise_separable_conv_forward ((conv # convs) ! i)
             (if i = 0 then x else new ! (i - 1)) = Some c \<and> new ! i = gelu c"
        by blast
      from n obtain h new' where new: "new = h # new'" and n': "length new' = length convs"
        by (cases new) auto
      from a [rule_format, of 0] have h: "h = gelu c" using Some new by simp
      have "\<exists>c'. depthwise_separable_conv_forward (convs ! i)
             (if i = 0 then gelu c else new' ! (i - 1)) = Some c' \<and> new' ! i = gelu c'"
        if "i < length convs" for i
      proof -
        from a [rule_format, of "Suc i"] that
        obtain c' where c': "depthwise_separable_conv_forward (convs ! i) (new ! i) = Some c'"
          "new' ! i = gelu c'"
          by (auto simp: new)
        have "new ! i = (if i = 0 then gelu c else new' ! (i - 1))"
          by (cases i) (simp_all add: new h)
        then show ?thesis using c' by auto
      qed
      then have "?Q new'" using o new h n' by simp
      then show "\<exists>new'. ?Q new'" ..
    next
      assume "\<exists>new'. ?Q new'"
      then obtain new' where o: "outs = (acc @ [gelu c]) @ new'" and n: "length new' = length convs"
        and a: "\<forall>i<length convs. \<exists>c'.
           depthwise_separable_conv_forward (convs ! i)
             (if i = 0 then gelu c else new' ! (i - 1)) = Some c' \<and> new' ! i = gelu c'"
        by blast
      let ?new = "gelu c # new'"
      have "\<exists>c'. depthwise_separable_conv_forward ((conv # convs) ! i)
             (if i = 0 then x else ?new ! (i - 1)) = Some c' \<and> ?new ! i = gelu c'"
        if "i < length (conv # convs)" for i
      proof (cases i)
        case 0
        then show ?thesis using Some by simp
      next
        case (Suc j)
        then have j: "j < length convs" using that by simp
        from a [rule_format, OF j]
        obtain c' where c': "depthwise_separable_conv_forward (convs ! j)
             (if j = 0 then gelu c else new' ! (j - 1)) = Some c'" "new' ! j = gelu c'"
          by blast
        have "?new ! j = (if j = 0 then gelu c else new' ! (j - 1))"
          by (cases j) simp_all
        then show ?thesis using c' Suc by simp
      qed
      then have "?P ?new" using o n by simp
      then show "\<exists>new. ?P new" ..
    qed
    show ?thesis using l r by simp
  qed
qed


text \<open>C7: \<open>GlobalContextExtractor.forward\<close> returns a list \<open>outputs\<close> exactly when that list has
  one entry for each of the configured depthwise-separable convolutions, entry 0 is the gelu
  (tanh approximation) of convolution 0 applied to the input \<open>x\<close>, and every later entry \<open>i\<close>
  is the gelu of convolution \<open>i\<close> applied to entry \<open>i - 1\<close>: each convolution consumes the
  activated output of the stage before it, and the call raises exactly when one of these
  convolutions does.\<close>

theorem GlobalContextExtractor_forward_sequential:
  "GlobalContextExtractor_forward self x = Some outputs \<longleftrightarrow>
     length outputs = length (depthwise_separable_convs self) \<and>
     (\<forall>i<length (depthwise_separable_convs self). \<exists>c.
        depthwise_separable_conv_forward (depthwise_separable_convs self ! i)
          (if i = 0 then x else outputs ! (i - 1)) = Some c
        \<and> outputs ! i = gelu c)"
  unfolding GlobalContextExtractor_forward_def GlobalContextExtractor_loop_chain by auto

lemma conv2d_single_entry:
  "conv2d (Tensor [1, 1, 1, 1] [a]) (Tensor [1, 1, 1, 1] [k]) None 1 0 1
     = Some (Tensor [1, 1, 1, 1] [a * k])"
  by (simp add: conv2d_def tabulate_def get_def)

lemma Conv2d_forward_single_entry:
  "Conv2d_forward \<lparr>conv_weight = Tensor [1, 1, 1, 1] [k], conv_bias = None, conv_stride = 1,
                    conv_padding = 0, conv_groups = 1\<rparr> (Tensor [1, 1, 1, 1] [a])
     = Some (Tensor [1, 1, 1, 1] [a * k])"
proof -
  have n: "(length (shape (Tensor [1, 1, 1, 1] [a])) = 3) = False" by simp
  show ?thesis
    unfolding Conv2d_forward_def n
    by (simp only: if_False Conv2d.select_convs conv2d_single_entry)
qed

lemma depthwise_separable_conv_single_entry:
  "depthwise_separable_conv_forward
     \<lparr>pointwise = \<lparr>conv_weight = Tensor [1, 1, 1, 1] [p], conv_bias = None, conv_stride = 1,
                    conv_padding = 0, conv_groups = 1\<rparr>,
      depthwise = \<lparr>conv_weight = Tensor [1, 1, 1, 1] [d], conv_bias = None, conv_stride = 1,
                    conv_padding = 0, conv_groups = 1\<rparr>\<rparr>
     (Tensor [1, 1, 1, 1] [a]) = Some (Tensor [1, 1, 1, 1] [a * d * p])"
  unfolding depthwise_separable_conv_forward_def
  by (simp only: depthwise_separable_conv.select_convs Conv2d_forward_single_entry
        bind.bind_lunit)

lemma gelu_single_entry: "gelu (Tensor [1, 1, 1, 1] [a]) = Tensor [1, 1, 1, 1] [gelu_tanh a]"
  by (simp add: gelu_def map_tensor_def tabulate_def get_def)

theorem GlobalContextExtractor_forward_sequential_witness:
  "GlobalContextExtractor_forward
     \<lparr>depthwise_separable_convs =
        [\<lparr>pointwise = \<lparr>conv_weight = Tensor [1, 1, 1, 1] [3], conv_bias = None, conv_stride = 1,
                        conv_padding = 0, conv_groups = 1\<rparr>,
          depthwise = \<lparr>conv_weight = Tensor [1, 1, 1, 1] [2], conv_bias = None, conv_stride = 1,
                        conv_padding = 0, conv_groups = 1\<rparr>\<rparr>,
         \<lparr>pointwise = \<lparr>conv_weight = Tensor [1, 1, 1, 1] [7], conv_bias = None, conv_stride = 1,
                        conv_padding = 0, conv_groups = 1\<rparr>,
          depthwise = \<lparr>conv_weight = Tensor [1, 1, 1, 1] [5], conv_bias = None, conv_stride = 1,
                        conv_padding = 0, conv_groups = 1\<rparr>\<rparr>]\<rparr>
     (Tensor [1, 1, 1, 1] [1])
   = Some [Tensor [1, 1, 1, 1] [gelu_tanh 6],
           Tensor [1, 1, 1, 1] [gelu_tanh (gelu_tanh 6 * 5 * 7)]]"
proof -
  let ?c0 = "\<lparr>pointwise = \<lparr>conv_weight = Tensor [1, 1, 1, 1] [3], conv_bias = None,
                  conv_stride = 1, conv_padding = 0, conv_groups = 1\<rparr>,
                depthwise = \<lparr>conv_weight = Tensor [1, 1, 1, 1] [2], conv_bias = None,
                  conv_stride = 1, conv_padding = 0, conv_groups = 1\<rparr>\<rparr>"
  let ?c1 = "\<lparr>pointwise = \<lparr>conv_weight = Tensor [1, 1, 1, 1] [7], conv_bias = None,
                  conv_stride = 1, conv_padding = 0, conv_groups = 1\<rparr>,
                depthwise = \<lparr>conv_weight = Tensor [1, 1, 1, 1] [5], conv_bias = None,
                  conv_stride = 1, conv_padding = 0, conv_groups = 1\<rparr>\<rparr>"
  let ?self = "\<lparr>depthwise_separable_convs = [?c0, ?c1]\<rparr>"
  let ?x = "Tensor [1, 1, 1, 1] [1]"
  let ?o0 = "Tensor [1, 1, 1, 1] [gelu_tanh 6]"
  let ?o1 = "Tensor [1, 1, 1, 1] [gelu_tanh (gelu_tanh 6 * 5 * 7)]"
  have l: "length [?o0, ?o1] = length (depthwise_separable_convs ?self)" by simp
  have s0: "depthwise_separable_conv_forward ?c0 ?x = Some (Tensor [1, 1, 1, 1] [6])"
    using depthwise_separable_conv_single_entry [of 3 2 1] by simp
  have s1: "depthwise_separable_conv_forward ?c1 ?o0
      = Some (Tensor [1, 1, 1, 1] [gelu_tanh 6 * 5 * 7])"
    by (rule depthwise_separable_conv_single_entry)
  have c: "\<exists>c. depthwise_separable_conv_forward (depthwise_separable_convs ?self ! i)
          (if i = 0 then ?x else [?o0, ?o1] ! (i - 1)) = Some c
        \<and> [?o0, ?o1] ! i = gelu c"
    if "i < length (depthwise_separable_convs ?self)" for i
  proof -
    from that have "i = 0 \<or> i = 1" by auto
    then show ?thesis
    proof
      assume i: "i = 0"
      have "depthwise_separable_conv_forward (depthwise_separable_convs ?self ! 0)
          (if (0::nat) = 0 then ?x else [?o0, ?o1] ! (0 - 1)) = Some (Tensor [1, 1, 1, 1] [6])"
        using s0 by simp
      moreover have "[?o0, ?o1] ! 0 = gelu (Tensor [1, 1, 1, 1] [6])"
        by (simp only: gelu_single_entry nth_Cons_0)
      ultimately show ?thesis unfolding i by blast
    next
      assume i: "i = 1"
      have "depthwise_separable_conv_forward (depthwise_separable_convs ?self ! 1)
          (if (1::nat) = 0 then ?x else [?o0, ?o1] ! (1 - 1))
            = Some (Tensor [1, 1, 1, 1] [gelu_tanh 6 * 5 * 7])"
        using s1 by simp
      moreover have "[?o0, ?o1] ! 1 = gelu (Tensor [1, 1, 1, 1] [gelu_tanh 6 * 5 * 7])"
        unfolding gelu_single_entry by simp
      ultimately show ?thesis unfolding i by blast
    qed
  qed
  show ?thesis
    using GlobalContextExtractor_forward_sequential [of ?self ?x "[?o0, ?o1]"] l c by blast
qed

section \<open>Shapes through the blocks, and the blocks at zero residual scales\<close>





lemma shape_gelu [simp]: "shape (gelu t) = shape t"
  by (simp add: gelu_def)

lemma wf_gelu [simp]: "wf_tensor (gelu t)"
  by (simp add: gelu_def)





































end
